theory Spec2Isabelle
  imports Complex_Main "HOL-Library.Sublist" "HOL-Library.Multiset"
begin

section \<open>Python builtins used by pixel\_painter.py\<close>

text \<open>
  The exceptions the program can meet. The first four are subclasses of Python's
  \<open>Exception\<close>; \<open>SystemExit\<close> and \<open>KeyboardInterrupt\<close> derive from \<open>BaseException\<close>
  only, so an \<open>except Exception\<close> clause does not catch them.
\<close>

datatype exn = ValueError | IndexError | OverflowError | AutoItError
  | SystemExit | KeyboardInterrupt

fun is_Exception :: "exn \<Rightarrow> bool" where
  "is_Exception SystemExit = False"
| "is_Exception KeyboardInterrupt = False"
| "is_Exception _ = True"

text \<open>
  \<open>int(s, base)\<close> on text: surrounding whitespace is stripped, one sign is allowed,
  then at least one digit, with single underscores between digits. Characters are bytes
  here, so the model covers ASCII text (Python also accepts non-ASCII decimal digits and
  spaces). A base prefix (\<open>0x\<close>) needs three characters to be accepted and the program
  calls \<open>int(_, 16)\<close> on slices of at most two characters only, so no prefix is
  modelled. The limit on the number of digits (\<open>sys.int_max_str_digits\<close>) is not
  modelled.
\<close>

definition py_isspace :: "char \<Rightarrow> bool" where
  "py_isspace c = (let n = (of_char c :: nat) in (9 \<le> n \<and> n \<le> 13) \<or> (28 \<le> n \<and> n \<le> 32))"

definition py_strip :: "string \<Rightarrow> string" where
  "py_strip s = rev (dropWhile py_isspace (rev (dropWhile py_isspace s)))"

definition digit_val :: "char \<Rightarrow> nat option" where
  "digit_val c = (let n = (of_char c :: nat) in
     if 48 \<le> n \<and> n \<le> 57 then Some (n - 48)
     else if 97 \<le> n \<and> n \<le> 122 then Some (n - 87)
     else if 65 \<le> n \<and> n \<le> 90 then Some (n - 55)
     else None)"

definition digit_in :: "nat \<Rightarrow> char \<Rightarrow> nat option" where
  "digit_in b c = (case digit_val c of None \<Rightarrow> None | Some v \<Rightarrow> if v < b then Some v else None)"

fun digits_acc :: "nat \<Rightarrow> nat \<Rightarrow> string \<Rightarrow> nat option" where
  "digits_acc b acc [] = Some acc"
| "digits_acc b acc (c # cs) =
     (if c = CHR ''_'' then
        (case cs of [] \<Rightarrow> None
         | d # ds \<Rightarrow> (case digit_in b d of None \<Rightarrow> None
                      | Some v \<Rightarrow> digits_acc b (acc * b + v) ds))
      else (case digit_in b c of None \<Rightarrow> None
            | Some v \<Rightarrow> digits_acc b (acc * b + v) cs))"

definition py_digits :: "nat \<Rightarrow> string \<Rightarrow> nat option" where
  "py_digits b s = (case s of [] \<Rightarrow> None
     | c # cs \<Rightarrow> (case digit_in b c of None \<Rightarrow> None | Some v \<Rightarrow> digits_acc b v cs))"

definition py_int :: "nat \<Rightarrow> string \<Rightarrow> int option" where
  "py_int b s = (case py_strip s of [] \<Rightarrow> None
     | c # cs \<Rightarrow>
         if c = CHR ''+'' then map_option int (py_digits b cs)
         else if c = CHR ''-'' then map_option (\<lambda>n. - int n) (py_digits b cs)
         else map_option int (py_digits b (c # cs)))"

text \<open>\<open>int(x)\<close> on a float truncates towards zero.\<close>

definition py_trunc :: "real \<Rightarrow> int" where
  "py_trunc r = (if r < 0 then \<lceil>r\<rceil> else \<lfloor>r\<rfloor>)"

text \<open>\<open>str.lower()\<close> on ASCII text.\<close>

definition lower_char :: "char \<Rightarrow> char" where
  "lower_char c = (let n = (of_char c :: nat) in if 65 \<le> n \<and> n \<le> 90 then char_of (n + 32) else c)"

definition py_lower :: "string \<Rightarrow> string" where
  "py_lower s = map lower_char s"

section \<open>Color model\<close>

text \<open>
  A color is the text of six hex digits that \<open>upload_image\<close> writes
  (\<open>f"{r:02x}{g:02x}{b:02x}"\<close>). Both color functions start by parsing the three
  two-character slices \<open>h[0:2]\<close>, \<open>h[2:4]\<close>, \<open>h[4:6]\<close> with \<open>int(_, 16)\<close>;
  \<open>parse_rgb\<close> is that shared prefix. Floats are modelled by real numbers.
\<close>

definition parse_rgb :: "string \<Rightarrow> exn + (int \<times> int \<times> int)" where
  "parse_rgb h =
     (case py_int 16 (take 2 h) of None \<Rightarrow> Inl ValueError
      | Some r \<Rightarrow>
     (case py_int 16 (take 2 (drop 2 h)) of None \<Rightarrow> Inl ValueError
      | Some g \<Rightarrow>
     (case py_int 16 (take 2 (drop 4 h)) of None \<Rightarrow> Inl ValueError
      | Some b \<Rightarrow> Inr (r, g, b))))"

definition calculate_luminance :: "string \<Rightarrow> exn + real" where
  "calculate_luminance hex_color =
     (case parse_rgb hex_color of Inl e \<Rightarrow> Inl e
      | Inr (r, g, b) \<Rightarrow> Inr (0.299 * real_of_int r + 0.587 * real_of_int g + 0.114 * real_of_int b))"

definition calculate_color_distance :: "string \<Rightarrow> string \<Rightarrow> exn + real" where
  "calculate_color_distance hex_color1 hex_color2 =
     (case parse_rgb hex_color1 of Inl e \<Rightarrow> Inl e
      | Inr (r1, g1, b1) \<Rightarrow>
     (case parse_rgb hex_color2 of Inl e \<Rightarrow> Inl e
      | Inr (r2, g2, b2) \<Rightarrow>
          Inr (sqrt (real_of_int ((r2 - r1)\<^sup>2 + (g2 - g1)\<^sup>2 + (b2 - b1)\<^sup>2)))))"

text \<open>The six-hex-digit colors, the only ones \<open>upload_image\<close> produces.\<close>

definition is_hex :: "char \<Rightarrow> bool" where
  "is_hex c = (digit_in 16 c \<noteq> None)"

definition valid_hex :: "string \<Rightarrow> bool" where
  "valid_hex h = (length h = 6 \<and> list_all is_hex h)"


section \<open>Configuration\<close>

text \<open>
  \<open>float(s)\<close> on text: whitespace stripped, one sign, then \<open>inf\<close>, \<open>infinity\<close> or
  \<open>nan\<close> in any case, or a decimal number (digits with single underscores between
  digits, an optional point, an optional exponent). The value is kept exact: rounding to
  a double, and overflow to infinity, are not modelled.
\<close>

datatype pyfloat = Finite real | PosInf | NegInf | NaN

fun more_digits :: "string \<Rightarrow> nat list \<times> string" where
  "more_digits [] = ([], [])"
| "more_digits [c] = (case digit_in 10 c of Some v \<Rightarrow> ([v], []) | None \<Rightarrow> ([], [c]))"
| "more_digits (c # d # cs) =
     (case digit_in 10 c of
        Some v \<Rightarrow> (case more_digits (d # cs) of (vs, r) \<Rightarrow> (v # vs, r))
      | None \<Rightarrow>
          if c = CHR ''_'' then
            (case digit_in 10 d of
               Some v \<Rightarrow> (case more_digits cs of (vs, r) \<Rightarrow> (v # vs, r))
             | None \<Rightarrow> ([], c # d # cs))
          else ([], c # d # cs))"

definition digitpart :: "string \<Rightarrow> nat list \<times> string" where
  "digitpart s = (case s of [] \<Rightarrow> ([], [])
     | c # cs \<Rightarrow> (case digit_in 10 c of None \<Rightarrow> ([], s)
                  | Some v \<Rightarrow> (case more_digits cs of (vs, r) \<Rightarrow> (v # vs, r))))"

definition digits_nat :: "nat list \<Rightarrow> nat" where
  "digits_nat vs = foldl (\<lambda>a v. a * 10 + v) 0 vs"

definition exponent :: "string \<Rightarrow> int option" where
  "exponent s = (case s of [] \<Rightarrow> None
     | c # cs \<Rightarrow>
        (let (neg, t) = (if c = CHR ''-'' then (True, cs) else if c = CHR ''+'' then (False, cs) else (False, s))
         in case digitpart t of
              (vs, r) \<Rightarrow> if vs = [] \<or> r \<noteq> [] then None
                         else Some (if neg then - int (digits_nat vs) else int (digits_nat vs))))"

definition scale10 :: "real \<Rightarrow> int \<Rightarrow> real" where
  "scale10 m e = (if 0 \<le> e then m * 10 ^ nat e else m / 10 ^ nat (- e))"

definition floatnumber :: "string \<Rightarrow> real option" where
  "floatnumber s =
     (case digitpart s of (ip, r1) \<Rightarrow>
        (case (case r1 of [] \<Rightarrow> ([], r1)
               | c # cs \<Rightarrow> if c = CHR ''.'' then digitpart cs else ([], r1)) of
           (fp, r2) \<Rightarrow>
             if ip = [] \<and> fp = [] then None
             else
               (let m = real (digits_nat (ip @ fp)) / 10 ^ length fp in
                case r2 of [] \<Rightarrow> Some m
                | c # cs \<Rightarrow>
                    if c = CHR ''e'' \<or> c = CHR ''E'' then map_option (scale10 m) (exponent cs)
                    else None)))"

definition py_float :: "string \<Rightarrow> pyfloat option" where
  "py_float s =
     (let t = py_strip s;
          (neg, u) = (case t of [] \<Rightarrow> (False, t)
                      | c # cs \<Rightarrow> if c = CHR ''-'' then (True, cs)
                                 else if c = CHR ''+'' then (False, cs) else (False, t))
      in if py_lower u = ''inf'' \<or> py_lower u = ''infinity'' then Some (if neg then NegInf else PosInf)
         else if py_lower u = ''nan'' then Some NaN
         else map_option (\<lambda>r. Finite (if neg then - r else r)) (floatnumber u))"

text \<open>The text of the eleven entry widgets read by \<open>get_coords\<close>.\<close>

record entries =
  start_x_entry :: string
  start_y_entry :: string
  end_x_entry :: string
  end_y_entry :: string
  button_x_entry :: string
  button_y_entry :: string
  hex_x_entry :: string
  hex_y_entry :: string
  mouse_speed_entry :: string
  action_delay_entry :: string
  color_tolerance_entry :: string

text \<open>The dictionary \<open>get_coords\<close> returns, one field per key.\<close>

record coords =
  start_x :: int
  start_y :: int
  end_x :: int
  end_y :: int
  button_x :: int
  button_y :: int
  hex_x :: int
  hex_y :: int
  speed :: int
  delay :: pyfloat
  tolerance :: int

text \<open>
  \<open>get_coords\<close>: the dictionary display converts the fields in order; the first
  \<open>ValueError\<close> is caught, an error box is shown and \<open>None\<close> is returned. No other
  check is made on the values.
\<close>

definition get_coords :: "entries \<Rightarrow> coords option" where
  "get_coords w =
     Option.bind (py_int 10 (start_x_entry w)) (\<lambda>sx.
     Option.bind (py_int 10 (start_y_entry w)) (\<lambda>sy.
     Option.bind (py_int 10 (end_x_entry w)) (\<lambda>ex.
     Option.bind (py_int 10 (end_y_entry w)) (\<lambda>ey.
     Option.bind (py_int 10 (button_x_entry w)) (\<lambda>bx.
     Option.bind (py_int 10 (button_y_entry w)) (\<lambda>by.
     Option.bind (py_int 10 (hex_x_entry w)) (\<lambda>hx.
     Option.bind (py_int 10 (hex_y_entry w)) (\<lambda>hy.
     Option.bind (py_int 10 (mouse_speed_entry w)) (\<lambda>sp.
     Option.bind (py_float (action_delay_entry w)) (\<lambda>dl.
     Option.bind (py_int 10 (color_tolerance_entry w)) (\<lambda>tol.
       Some \<lparr>start_x = sx, start_y = sy, end_x = ex, end_y = ey,
             button_x = bx, button_y = by, hex_x = hx, hex_y = hy,
             speed = sp, delay = dl, tolerance = tol\<rparr>)))))))))))"

text \<open>The entry texts \<open>setup_ui_content\<close> inserts.\<close>

definition default_entries :: entries where
  "default_entries = \<lparr>start_x_entry = ''100'', start_y_entry = ''100'',
     end_x_entry = ''420'', end_y_entry = ''420'',
     button_x_entry = ''50'', button_y_entry = ''500'',
     hex_x_entry = ''150'', hex_y_entry = ''500'',
     mouse_speed_entry = ''10'', action_delay_entry = ''0.08'',
     color_tolerance_entry = ''30''\<rparr>"

text \<open>The speed \<open>human_like_move\<close> hands to the input library.\<close>

definition autoit_speed :: "int \<Rightarrow> int" where
  "autoit_speed sp = max 1 (min 100 (101 - sp))"

section \<open>Tile geometry\<close>

text \<open>
  The tile size is computed in \<open>painting_loop\<close> (lines 492 to 495) and handed to
  \<open>get_tile_position\<close>. Python's floats are modelled by real numbers: the divisions
  by 32 and by 2 are exact in binary floating point, so the model agrees with the program
  for every screen coordinate a display can have; the \<open>OverflowError\<close> of converting an
  integer beyond the float range is not modelled.
\<close>

definition tile_size :: "coords \<Rightarrow> real \<times> real" where
  "tile_size c = (real_of_int (end_x c - start_x c) / 32, real_of_int (end_y c - start_y c) / 32)"

definition get_tile_position :: "nat \<Rightarrow> nat \<Rightarrow> coords \<Rightarrow> real \<Rightarrow> real \<Rightarrow> int \<times> int" where
  "get_tile_position x y c tile_width tile_height =
     (py_trunc (real_of_int (start_x c) + real x * tile_width + tile_width / 2),
      py_trunc (real_of_int (start_y c) + real y * tile_height + tile_height / 2))"

section \<open>Painter state, controller and environment\<close>

datatype btn_state = NORMAL | DISABLED

text \<open>
  The two actions of a run: the color-picker round trip of lines 548 to 579, with the
  hex text typed, and the placement click of lines 583 to 590, with the cell and its
  tile centre.
\<close>

datatype action = SelectColor string | PlaceTile nat nat int int

text \<open>The lines \<open>log_status\<close> is called with.\<close>

datatype logmsg =
    LogStartingIn nat
  | LogStarting
  | LogTileSize real real
  | LogSorted nat
  | LogPixelColor nat nat string real
  | LogSameColor nat nat
  | LogAborted
  | LogComplete
  | LogTotalPainted nat
  | LogColorChanges nat nat
  | LogError exn
  | LogPaused
  | LogResumed

text \<open>
  The fields of the application object that the run touches, the local variables of
  \<open>painting_loop\<close> (\<open>painted_pixels\<close>, \<open>color_changes\<close>, \<open>skipped_color_changes\<close>,
  \<open>previous_color\<close>), and two ghost fields: \<open>actions\<close>, the actions completed so far,
  and \<open>clicks\<close>, the arguments of every completed \<open>reliable_click\<close>.
\<close>

record painter =
  is_painting :: bool
  is_paused :: bool
  should_abort :: bool
  start_btn :: btn_state
  pause_btn :: btn_state
  abort_btn :: btn_state
  status_log :: "logmsg list"
  progress :: real
  painted_pixels :: nat
  color_changes :: nat
  skipped_color_changes :: nat
  previous_color :: "string option"
  actions :: "action list"
  clicks :: "(int \<times> int) list"

definition log_status :: "logmsg \<Rightarrow> painter \<Rightarrow> painter" where
  "log_status m st = st\<lparr>status_log := status_log st @ [m]\<rparr>"

definition toggle_pause :: "painter \<Rightarrow> painter" where
  "toggle_pause st =
     (let st1 = st\<lparr>is_paused := \<not> is_paused st\<rparr>
      in if is_paused st1 then log_status LogPaused st1 else log_status LogResumed st1)"

definition abort_painting :: "painter \<Rightarrow> painter" where
  "abort_painting st = st\<lparr>should_abort := True, is_paused := False\<rparr>"

definition on_ctrl_press :: "painter \<Rightarrow> painter" where
  "on_ctrl_press st = (if is_painting st then toggle_pause st else st)"

text \<open>\<open>finish_painting\<close>; the three deferred button updates are applied at once.\<close>

definition finish_painting :: "painter \<Rightarrow> painter" where
  "finish_painting st =
     st\<lparr>is_painting := False, start_btn := NORMAL, pause_btn := DISABLED, abort_btn := DISABLED\<rparr>"

text \<open>
  What the controlling thread does while the worker runs: the operator presses the pause
  button, the abort button or the F1 key. A disabled button does nothing. Each call is
  taken as atomic.
\<close>

datatype ctl = PressPause | PressAbort | PressF1

fun ctl_step :: "painter \<Rightarrow> ctl \<Rightarrow> painter" where
  "ctl_step st PressPause = (if pause_btn st = NORMAL then toggle_pause st else st)"
| "ctl_step st PressAbort = (if abort_btn st = NORMAL then abort_painting st else st)"
| "ctl_step st PressF1 = on_ctrl_press st"

text \<open>
  The worker reads the two flags at three places: \<open>should_abort\<close> at the top of an
  iteration, \<open>is_paused\<close> at the head of the pause loop, \<open>should_abort\<close> after each
  sleep of the pause loop. A schedule lists, for each read in turn, the controller calls
  that happened since the read before; after its end the controller stays silent.
\<close>

definition controller :: "ctl list list \<Rightarrow> painter \<Rightarrow> painter" where
  "controller sch st = (case sch of [] \<Rightarrow> st | b # _ \<Rightarrow> foldl ctl_step st b)"

text \<open>
  The rest of the environment: \<open>device k\<close> is the exception, if any, that the input
  library or \<open>time.sleep\<close> raises during the action started after \<open>k\<close> completed
  actions; \<open>jitter k\<close> is the pair of \<open>random.uniform(-1, 1)\<close> drawn for placement
  \<open>k\<close>. The random offsets inside \<open>reliable_click\<close> belong to the input layer and are
  not modelled.
\<close>

record env =
  device :: "nat \<Rightarrow> exn option"
  jitter :: "nat \<Rightarrow> real \<times> real"

section \<open>The painting loop\<close>

type_synonym pixel = "real \<times> string \<times> nat \<times> nat \<times> int \<times> int"

definition py_index :: "'a list \<Rightarrow> nat \<Rightarrow> exn + 'a" where
  "py_index xs i = (if i < length xs then Inr (xs ! i) else Inl IndexError)"

text \<open>The body of the two collecting loops (lines 503 to 506) for one cell.\<close>

definition pixel_at :: "string list list \<Rightarrow> coords \<Rightarrow> real \<Rightarrow> real \<Rightarrow> nat \<Rightarrow> nat \<Rightarrow> exn + pixel" where
  "pixel_at pixel_colors c tile_width tile_height y x =
     (case py_index pixel_colors y of Inl e \<Rightarrow> Inl e
      | Inr row \<Rightarrow>
     (case py_index row x of Inl e \<Rightarrow> Inl e
      | Inr col \<Rightarrow>
     (case calculate_luminance (py_lower col) of Inl e \<Rightarrow> Inl e
      | Inr luminance \<Rightarrow>
     (case get_tile_position x y c tile_width tile_height of
        (tile_x, tile_y) \<Rightarrow> Inr (luminance, py_lower col, x, y, tile_x, tile_y)))))"

fun collect :: "(exn + 'a) list \<Rightarrow> exn + 'a list" where
  "collect [] = Inr []"
| "collect (r # rs) =
     (case r of Inl e \<Rightarrow> Inl e
      | Inr v \<Rightarrow> (case collect rs of Inl e \<Rightarrow> Inl e | Inr vs \<Rightarrow> Inr (v # vs)))"

definition collect_pixels :: "string list list \<Rightarrow> coords \<Rightarrow> real \<Rightarrow> real \<Rightarrow> exn + pixel list" where
  "collect_pixels pixel_colors c tile_width tile_height =
     collect (concat (map (\<lambda>y. map (\<lambda>x. pixel_at pixel_colors c tile_width tile_height y x) [0..<32])
                          [0..<32]))"

text \<open>
  \<open>pixels.sort(key=lambda p: p[0])\<close>: Python's sort is stable, and so is \<open>sort_key\<close>;
  a list has one stable sorting by a key, so both give the same list. The luminance is
  the real number of the formula; what is proved of \<open>sort_pixels\<close> holds for any
  luminance values in the tuples, the rounded ones of the program included.
\<close>

definition sort_pixels :: "pixel list \<Rightarrow> pixel list" where
  "sort_pixels pixels = sort_key fst pixels"

text \<open>Lines 539 to 544: whether the cell needs a color change.\<close>

definition needs_color_change :: "string option \<Rightarrow> string \<Rightarrow> int \<Rightarrow> exn + bool" where
  "needs_color_change prev hex_color tol =
     (case prev of None \<Rightarrow> Inr True
      | Some p \<Rightarrow>
          (case calculate_color_distance p hex_color of Inl e \<Rightarrow> Inl e
           | Inr distance \<Rightarrow> Inr (\<not> distance \<le> real_of_int tol)))"

text \<open>Lines 548 to 579.\<close>

definition select_color :: "env \<Rightarrow> coords \<Rightarrow> nat \<Rightarrow> nat \<Rightarrow> pixel \<Rightarrow> painter \<Rightarrow> (exn \<times> painter) + painter" where
  "select_color E c pixel_index total_pixels p st =
     (case p of (luminance, hex_color, x, y, tile_x, tile_y) \<Rightarrow>
        (let st1 = log_status (LogPixelColor (pixel_index + 1) total_pixels hex_color luminance) st
         in case device E (length (actions st1)) of
              Some e \<Rightarrow> Inl (e, st1)
            | None \<Rightarrow>
                Inr (st1\<lparr>clicks := clicks st1 @ [(button_x c, button_y c), (hex_x c, hex_y c),
                                                  (button_x c, button_y c)],
                         actions := actions st1 @ [SelectColor hex_color],
                         color_changes := color_changes st1 + 1,
                         previous_color := Some hex_color\<rparr>)))"

text \<open>Lines 583 to 594.\<close>

definition place_tile :: "env \<Rightarrow> coords \<Rightarrow> nat \<Rightarrow> nat \<Rightarrow> pixel \<Rightarrow> painter \<Rightarrow> (exn \<times> painter) + painter" where
  "place_tile E c pixel_index total_pixels p st =
     (case p of (luminance, hex_color, x, y, tile_x, tile_y) \<Rightarrow>
        (case jitter E (painted_pixels st) of (jx, jy) \<Rightarrow>
           (case device E (length (actions st)) of
              Some e \<Rightarrow> Inl (e, st)
            | None \<Rightarrow>
                Inr (st\<lparr>clicks := clicks st @ [(py_trunc (real_of_int tile_x + jx),
                                                 py_trunc (real_of_int tile_y + jy))],
                        actions := actions st @ [PlaceTile x y tile_x tile_y],
                        painted_pixels := painted_pixels st + 1,
                        progress := real (pixel_index + 1) / real total_pixels * 100\<rparr>))))"

text \<open>Lines 538 to 594: one cell, once the flags have let it through.\<close>

definition paint_one :: "env \<Rightarrow> coords \<Rightarrow> nat \<Rightarrow> nat \<Rightarrow> pixel \<Rightarrow> painter \<Rightarrow> (exn \<times> painter) + painter" where
  "paint_one E c pixel_index total_pixels p st =
     (case needs_color_change (previous_color st) (fst (snd p)) (tolerance c) of
        Inl e \<Rightarrow> Inl (e, st)
      | Inr change \<Rightarrow>
          if change then
            (case select_color E c pixel_index total_pixels p st of
               Inl r \<Rightarrow> Inl r
             | Inr st1 \<Rightarrow> place_tile E c pixel_index total_pixels p st1)
          else
            place_tile E c pixel_index total_pixels p
              (log_status (LogSameColor (pixel_index + 1) total_pixels)
                 (st\<lparr>skipped_color_changes := skipped_color_changes st + 1\<rparr>)))"

text \<open>
  Lines 532 to 536, the pause loop. \<open>None\<close>: the loop never ends (still paused, not
  aborted, and the controller stays silent). Otherwise whether the loop returned from
  \<open>painting_loop\<close> on an abort, the state, and the schedule left.
\<close>

function pause_wait :: "painter \<Rightarrow> ctl list list \<Rightarrow> (bool \<times> painter \<times> ctl list list) option" where
  "pause_wait st sch =
     (let st1 = controller sch st; sch1 = tl sch
      in if \<not> is_paused st1 then Some (False, st1, sch1)
         else
           (let st2 = controller sch1 st1; sch2 = tl sch1
            in if should_abort st2 then Some (True, finish_painting st2, sch2)
               else if sch2 = [] then None
               else pause_wait st2 sch2))"
  by pat_completeness auto
termination
proof (relation "measure (\<lambda>(st, sch). length sch)")
  show "wf (measure (\<lambda>(st :: painter, sch :: ctl list list). length sch))" by simp
next
  fix st :: painter and sch :: "ctl list list" and x xa xb xc
  assume "xc = tl xa" "xa = tl sch" "xc \<noteq> []"
  then have "sch \<noteq> []" "tl sch \<noteq> []" by auto
  then show "((xb, xc), st, sch) \<in> measure (\<lambda>(st, sch). length sch)"
    using \<open>xc = tl xa\<close> \<open>xa = tl sch\<close> by (cases sch) auto
qed

declare pause_wait.simps [simp del]

text \<open>How the body of the \<open>try\<close> ends.\<close>

datatype exit = Done | AbortReturn | AbortReturnPaused | Raise exn | Stalled

text \<open>Lines 526 to 594, the loop over the sorted pixels.\<close>

fun paint_pixels :: "env \<Rightarrow> coords \<Rightarrow> nat \<Rightarrow> nat \<Rightarrow> pixel list \<Rightarrow> painter \<Rightarrow> ctl list list
    \<Rightarrow> exit \<times> painter" where
  "paint_pixels E c total_pixels pixel_index [] st sch = (Done, st)"
| "paint_pixels E c total_pixels pixel_index (p # ps) st sch =
     (let st1 = controller sch st; sch1 = tl sch
      in if should_abort st1 then (AbortReturn, finish_painting (log_status LogAborted st1))
         else
           (case pause_wait st1 sch1 of
              None \<Rightarrow> (Stalled, st1)
            | Some (aborted, st2, sch2) \<Rightarrow>
                if aborted then (AbortReturnPaused, st2)
                else
                  (case paint_one E c pixel_index total_pixels p st2 of
                     Inl (e, st3) \<Rightarrow> (Raise e, st3)
                   | Inr st3 \<Rightarrow> paint_pixels E c total_pixels (Suc pixel_index) ps st3 sch2)))"

text \<open>Lines 486 to 598, the body of the \<open>try\<close>.\<close>

definition paint_body :: "env \<Rightarrow> string list list \<Rightarrow> coords \<Rightarrow> painter \<Rightarrow> ctl list list \<Rightarrow> exit \<times> painter" where
  "paint_body E pixel_colors c st sch =
     (let st1 = log_status LogStarting
                  (log_status (LogStartingIn 1) (log_status (LogStartingIn 2) (log_status (LogStartingIn 3) st)));
          (tile_width, tile_height) = tile_size c;
          st2 = log_status (LogTileSize tile_width tile_height) st1
      in case collect_pixels pixel_colors c tile_width tile_height of
           Inl e \<Rightarrow> (Raise e, st2)
         | Inr pixels \<Rightarrow>
             (let sorted_pixels = sort_pixels pixels;
                  st3 = (log_status (LogSorted (length sorted_pixels)) st2)
                          \<lparr>painted_pixels := 0, color_changes := 0, skipped_color_changes := 0,
                           previous_color := None\<rparr>
              in case paint_pixels E c (length sorted_pixels) 0 sorted_pixels st3 sch of
                   (Done, st4) \<Rightarrow>
                     (Done, log_status (LogColorChanges (color_changes st4) (skipped_color_changes st4))
                              (log_status (LogTotalPainted (painted_pixels st4))
                                 (log_status LogComplete st4)))
                 | r \<Rightarrow> r))"

text \<open>How the worker thread leaves \<open>painting_loop\<close>.\<close>

datatype thread_end = ThreadReturned | ThreadEscaped exn | ThreadStuck

text \<open>
  \<open>painting_loop\<close>: the \<open>try\<close> with its \<open>except Exception\<close> and \<open>finally\<close>. The ghost
  traces start empty.
\<close>

definition painting_loop :: "env \<Rightarrow> string list list \<Rightarrow> coords \<Rightarrow> painter \<Rightarrow> ctl list list
    \<Rightarrow> exit \<times> thread_end \<times> painter" where
  "painting_loop E pixel_colors c st sch =
     (case paint_body E pixel_colors c (st\<lparr>actions := [], clicks := []\<rparr>) sch of
        (Stalled, st1) \<Rightarrow> (Stalled, ThreadStuck, st1)
      | (Raise e, st1) \<Rightarrow>
          if is_Exception e then (Raise e, ThreadReturned, finish_painting (log_status (LogError e) st1))
          else (Raise e, ThreadEscaped e, finish_painting st1)
      | (x, st1) \<Rightarrow> (x, ThreadReturned, finish_painting st1))"

text \<open>\<open>start_painting\<close>, up to the start of the worker thread.\<close>

definition start_painting :: "entries \<Rightarrow> string list list \<Rightarrow> painter \<Rightarrow> coords option \<times> painter" where
  "start_painting w pixel_colors st =
     (if pixel_colors = [] then (None, st)
      else (case get_coords w of None \<Rightarrow> (None, st)
            | Some c \<Rightarrow>
                (Some c, st\<lparr>is_painting := True, is_paused := False, should_abort := False,
                            start_btn := DISABLED, pause_btn := NORMAL, abort_btn := NORMAL\<rparr>)))"

text \<open>The state \<open>__init__\<close> and \<open>setup_ui_content\<close> leave.\<close>

definition init_painter :: painter where
  "init_painter = \<lparr>is_painting = False, is_paused = False, should_abort = False,
     start_btn = NORMAL, pause_btn = DISABLED, abort_btn = DISABLED,
     status_log = [], progress = 0, painted_pixels = 0, color_changes = 0,
     skipped_color_changes = 0, previous_color = None, actions = [], clicks = []\<rparr>"

section \<open>The scheduler as the specification words it\<close>

text \<open>
  The walk of the specification: a last color, initially none; a cell gets a
  \<open>SelectColor\<close> before its \<open>PlaceTile\<close> when the last color is none or its distance to
  the cell's color exceeds the tolerance, and then becomes the last color.
\<close>

definition spec_distance :: "string \<Rightarrow> string \<Rightarrow> real" where
  "spec_distance a b =
     (case (parse_rgb a, parse_rgb b) of
        (Inr (ra, ga, ba), Inr (rb, gb, bb)) \<Rightarrow>
          sqrt ((real_of_int ra - real_of_int rb)\<^sup>2 + (real_of_int ga - real_of_int gb)\<^sup>2
                + (real_of_int ba - real_of_int bb)\<^sup>2)
      | _ \<Rightarrow> 0)"

definition spec_selects :: "string option \<Rightarrow> string \<Rightarrow> int \<Rightarrow> bool" where
  "spec_selects lastColor col tol =
     (case lastColor of None \<Rightarrow> True | Some l \<Rightarrow> spec_distance l col > real_of_int tol)"

fun spec_walk :: "int \<Rightarrow> string option \<Rightarrow> pixel list \<Rightarrow> action list" where
  "spec_walk tol lastColor [] = []"
| "spec_walk tol lastColor ((lum, col, x, y, tx, ty) # ps) =
     (if spec_selects lastColor col tol
      then SelectColor col # PlaceTile x y tx ty # spec_walk tol (Some col) ps
      else PlaceTile x y tx ty # spec_walk tol lastColor ps)"

text \<open>Well-formed grids and pixel lists.\<close>

definition wf_grid :: "string list list \<Rightarrow> bool" where
  "wf_grid g = (length g = 32 \<and> list_all (\<lambda>row. length row = 32 \<and> list_all valid_hex row) g)"

definition parses :: "string \<Rightarrow> bool" where
  "parses h = (\<not> isl (parse_rgb h))"

definition is_select :: "action \<Rightarrow> bool" where
  "is_select a = (case a of SelectColor _ \<Rightarrow> True | PlaceTile _ _ _ _ \<Rightarrow> False)"

definition placed_cells :: "action list \<Rightarrow> (nat \<times> nat) list" where
  "placed_cells acts = concat (map (\<lambda>a. case a of SelectColor _ \<Rightarrow> [] | PlaceTile x y _ _ \<Rightarrow> [(x, y)]) acts)"

definition all_cells :: "(nat \<times> nat) list" where
  "all_cells = concat (map (\<lambda>y. map (\<lambda>x. (x, y)) [0..<32]) [0..<32])"

definition quiet :: "env \<Rightarrow> bool" where
  "quiet E = (\<forall>k. device E k = None)"


text \<open>Example inputs.\<close>

definition example_coords :: coords where
  "example_coords = \<lparr>start_x = 100, start_y = 420, end_x = 420, end_y = 100,
     button_x = 50, button_y = 500, hex_x = 150, hex_y = 500,
     speed = 10, delay = Finite 0.08, tolerance = 30\<rparr>"

text \<open>\<open>str(n)\<close> for an integer: its decimal text.\<close>

definition digit_char :: "nat \<Rightarrow> char" where
  "digit_char d = char_of (48 + d)"

fun nat_digits :: "nat \<Rightarrow> nat list" where
  "nat_digits n = (if n < 10 then [n] else nat_digits (n div 10) @ [n mod 10])"

definition py_str :: "int \<Rightarrow> string" where
  "py_str n = (if n < 0 then CHR ''-'' # map digit_char (nat_digits (nat (- n)))
               else map digit_char (nat_digits (nat n)))"

definition example_grid :: "string list list" where
  "example_grid = replicate 32 (replicate 32 ''1a2b3c'')"

text \<open>The color and the cell of a pixel tuple; one step of the specification's walk.\<close>

definition pixel_color :: "pixel \<Rightarrow> string" where
  "pixel_color p = fst (snd p)"

definition pixel_cell :: "pixel \<Rightarrow> nat \<times> nat" where
  "pixel_cell p = (case p of (lum, col, x, y, tx, ty) \<Rightarrow> (x, y))"

definition pixel_place :: "pixel \<Rightarrow> action" where
  "pixel_place p = (case p of (lum, col, x, y, tx, ty) \<Rightarrow> PlaceTile x y tx ty)"

definition spec_step :: "int \<Rightarrow> string option \<Rightarrow> pixel \<Rightarrow> action list \<times> string option" where
  "spec_step tol lastColor p =
     (if spec_selects lastColor (pixel_color p) tol
      then ([SelectColor (pixel_color p), pixel_place p], Some (pixel_color p))
      else ([pixel_place p], lastColor))"

definition prev_ok :: "painter \<Rightarrow> bool" where
  "prev_ok st = (case previous_color st of None \<Rightarrow> True | Some l \<Rightarrow> parses l)"

definition quiet_env :: env where
  "quiet_env = \<lparr>device = (\<lambda>k. None), jitter = (\<lambda>k. (0, 0))\<rparr>"

text \<open>The cells in the order the collecting loops visit them, row first.\<close>

definition cell_index :: "(nat \<times> nat) list" where
  "cell_index = concat (map (\<lambda>y. map (\<lambda>x. (y, x)) [0..<32]) [0..<32])"

text \<open>The states in which the loop over the sorted pixels starts, and in which a complete run leaves the \<open>try\<close>.\<close>

definition loop_start :: "coords \<Rightarrow> nat \<Rightarrow> painter \<Rightarrow> painter" where
  "loop_start c n st =
     (log_status (LogSorted n)
        (log_status (LogTileSize (fst (tile_size c)) (snd (tile_size c)))
           (log_status LogStarting
              (log_status (LogStartingIn 1) (log_status (LogStartingIn 2) (log_status (LogStartingIn 3) st))))))
     \<lparr>painted_pixels := 0, color_changes := 0, skipped_color_changes := 0, previous_color := None\<rparr>"

definition loop_end :: "painter \<Rightarrow> painter" where
  "loop_end st4 =
     log_status (LogColorChanges (color_changes st4) (skipped_color_changes st4))
       (log_status (LogTotalPainted (painted_pixels st4)) (log_status LogComplete st4))"

text \<open>The number of color selections among some actions.\<close>

definition count_selects :: "action list \<Rightarrow> nat" where
  "count_selects acts = length (filter is_select acts)"

text \<open>An example run: the default entries, a grid of one color, nothing disturbing it.\<close>

definition example_state :: painter where
  "example_state = snd (start_painting default_entries example_grid init_painter)"

definition example_pixels :: "pixel list" where
  "example_pixels = projr (collect_pixels example_grid example_coords
      (fst (tile_size example_coords)) (snd (tile_size example_coords)))"

definition example_run :: "exit \<times> thread_end \<times> painter" where
  "example_run = painting_loop quiet_env example_grid example_coords example_state []"



definition wide_coords :: coords where
  "wide_coords = example_coords\<lparr>tolerance := 442\<rparr>"

definition failing_env :: env where
  "failing_env = \<lparr>device = (\<lambda>k. if k = 0 then Some AutoItError else None), jitter = (\<lambda>k. (0, 0))\<rparr>"

definition negative_coords :: coords where
  "negative_coords = example_coords\<lparr>tolerance := - 1\<rparr>"

definition example_pixel :: pixel where
  "example_pixel = (0, ''1a2b3c'', 0, 0, 105, 415)"

text \<open>The user interface in the state that lets a run start.\<close>

definition idle :: "painter \<Rightarrow> bool" where
  "idle st = (\<not> is_painting st \<and> start_btn st = NORMAL \<and> pause_btn st = DISABLED
              \<and> abort_btn st = DISABLED)"

section \<open>Facts about the color model\<close>

lemma is_hex_range:
  assumes "is_hex c"
  shows "48 \<le> (of_char c :: nat)" and "c \<noteq> CHR ''+''" and "c \<noteq> CHR ''-''" and "c \<noteq> CHR ''_''"
    and "\<not> py_isspace c"
proof -
  from assms show r: "48 \<le> (of_char c :: nat)"
    by (auto simp: is_hex_def digit_in_def digit_val_def Let_def split: if_splits)
  from r show "c \<noteq> CHR ''+''" "c \<noteq> CHR ''-''" by auto
  from assms show "c \<noteq> CHR ''_''"
    by (auto simp: is_hex_def digit_in_def digit_val_def Let_def split: if_splits)
  from r show "\<not> py_isspace c" by (auto simp: py_isspace_def Let_def)
qed

lemma is_hex_digit_in: "is_hex c \<Longrightarrow> \<exists>v < 16. digit_in 16 c = Some v"
  by (auto simp: is_hex_def digit_in_def split: option.splits if_splits)

lemma py_int_hex_pair:
  assumes "is_hex a" "is_hex b"
  shows "\<exists>v. py_int 16 [a, b] = Some v \<and> 0 \<le> v \<and> v \<le> 255"
proof -
  from assms obtain va vb where v: "digit_in 16 a = Some va" "va < 16" "digit_in 16 b = Some vb" "vb < 16"
    using is_hex_digit_in by blast
  have s: "py_strip [a, b] = [a, b]"
    using is_hex_range(5)[OF assms(1)] is_hex_range(5)[OF assms(2)] by (simp add: py_strip_def)
  have "py_int 16 [a, b] = Some (int (va * 16 + vb))"
    using v is_hex_range(2,3)[OF assms(1)] is_hex_range(4)[OF assms(2)]
    by (simp add: py_int_def s py_digits_def)
  moreover have "int (va * 16 + vb) \<le> 255" using v by simp
  ultimately show ?thesis by auto
qed

lemma valid_hex_chars:
  assumes "valid_hex h"
  obtains a b c d e f where "h = [a, b, c, d, e, f]"
    "is_hex a" "is_hex b" "is_hex c" "is_hex d" "is_hex e" "is_hex f"
proof -
  from assms have l: "length h = 6" and al: "list_all is_hex h" by (auto simp: valid_hex_def)
  from l obtain a b c d e f where h: "h = [a, b, c, d, e, f]"
    by (auto simp: length_Suc_conv eval_nat_numeral)
  with al that show thesis by auto
qed

lemma parse_rgb_valid:
  assumes "valid_hex h"
  shows "\<exists>r g b. parse_rgb h = Inr (r, g, b) \<and> 0 \<le> r \<and> r \<le> 255 \<and> 0 \<le> g \<and> g \<le> 255 \<and> 0 \<le> b \<and> b \<le> 255"
proof -
  from assms obtain a b c d e f where h: "h = [a, b, c, d, e, f]"
    and x: "is_hex a" "is_hex b" "is_hex c" "is_hex d" "is_hex e" "is_hex f"
    by (rule valid_hex_chars)
  from py_int_hex_pair[OF x(1,2)] obtain r where r: "py_int 16 [a, b] = Some r" "0 \<le> r" "r \<le> 255" by blast
  from py_int_hex_pair[OF x(3,4)] obtain g where g: "py_int 16 [c, d] = Some g" "0 \<le> g" "g \<le> 255" by blast
  from py_int_hex_pair[OF x(5,6)] obtain bl where b: "py_int 16 [e, f] = Some bl" "0 \<le> bl" "bl \<le> 255" by blast
  have "parse_rgb h = Inr (r, g, bl)" by (simp add: parse_rgb_def h r g b)
  with r g b show ?thesis by blast
qed

section \<open>The color distance\<close>



section \<open>Tile positions\<close>










section \<open>Configuration validation\<close>

lemmas py_parse_defs = py_int_def py_strip_def py_isspace_def py_digits_def digit_in_def digit_val_def
  py_float_def floatnumber_def digitpart_def exponent_def digits_nat_def scale10_def py_lower_def
  lower_char_def

declare nat_digits.simps [simp del]

lemma digit_char_props:
  assumes "d < 10"
  shows "digit_in 10 (digit_char d) = Some d" "digit_char d \<noteq> CHR ''_''" "digit_char d \<noteq> CHR ''+''"
    "digit_char d \<noteq> CHR ''-''" "\<not> py_isspace (digit_char d)"
proof -
  have o: "(of_char (digit_char d) :: nat) = 48 + d" using assms by (simp add: digit_char_def)
  show "digit_in 10 (digit_char d) = Some d" using assms by (simp add: digit_in_def digit_val_def o)
  show "digit_char d \<noteq> CHR ''_''" "digit_char d \<noteq> CHR ''+''" "digit_char d \<noteq> CHR ''-''"
    using o assms by auto
  show "\<not> py_isspace (digit_char d)" using assms by (simp add: py_isspace_def o)
qed

lemma nat_digits_lt: "d \<in> set (nat_digits n) \<Longrightarrow> d < 10"
  by (induction n arbitrary: d rule: nat_digits.induct) (subst (asm) nat_digits.simps, auto split: if_splits)

lemma nat_digits_value: "foldl (\<lambda>a v. a * 10 + v) 0 (nat_digits n) = n"
  by (induction n rule: nat_digits.induct) (subst nat_digits.simps, auto)

lemma nat_digits_nonempty: "nat_digits n \<noteq> []"
  by (subst nat_digits.simps) auto

lemma digits_acc_decimal:
  "\<forall>d\<in>set ds. d < 10 \<Longrightarrow>
     digits_acc 10 acc (map digit_char ds) = Some (foldl (\<lambda>a v. a * 10 + v) acc ds)"
  by (induction ds arbitrary: acc) (auto simp: digit_char_props)

lemma py_digits_decimal: "py_digits 10 (map digit_char (nat_digits n)) = Some n"
proof -
  obtain d ds where e: "nat_digits n = d # ds" using nat_digits_nonempty[of n] by (cases "nat_digits n") auto
  have lt: "\<forall>x\<in>set (d # ds). x < 10" using nat_digits_lt[of _ n] e by auto
  have "py_digits 10 (map digit_char (d # ds)) = Some (foldl (\<lambda>a v. a * 10 + v) 0 (d # ds))"
    using lt by (simp add: py_digits_def digit_char_props digits_acc_decimal)
  then show ?thesis using nat_digits_value[of n] e by simp
qed

lemma dropWhile_none: "(\<And>x. x \<in> set xs \<Longrightarrow> \<not> P x) \<Longrightarrow> dropWhile P xs = xs"
  by (cases xs) auto

lemma py_strip_id:
  assumes "\<And>c. c \<in> set s \<Longrightarrow> \<not> py_isspace c"
  shows "py_strip s = s"
proof -
  have "dropWhile py_isspace s = s" using assms by (rule dropWhile_none)
  moreover have "dropWhile py_isspace (rev s) = rev s" using assms by (intro dropWhile_none) simp
  ultimately show ?thesis by (simp add: py_strip_def)
qed

lemma py_int_py_str: "py_int 10 (py_str n) = Some n"
proof -
  let ?ds = "\<lambda>m. map digit_char (nat_digits m)"
  have ne: "?ds m \<noteq> []" for m using nat_digits_nonempty by simp
  have sp: "\<not> py_isspace c" if "c \<in> set (?ds m)" for c m
    using that nat_digits_lt digit_char_props(5) by auto
  have hdp: "hd (?ds m) \<noteq> CHR ''+'' \<and> hd (?ds m) \<noteq> CHR ''-''" for m
  proof -
    obtain d ds where e: "nat_digits m = d # ds" using nat_digits_nonempty[of m] by (cases "nat_digits m") auto
    then have "d < 10" using nat_digits_lt[of d m] by simp
    then show ?thesis using e digit_char_props by simp
  qed
  show ?thesis
  proof (cases "n < 0")
    case True
    let ?s = "CHR ''-'' # ?ds (nat (- n))"
    have "\<not> py_isspace (CHR ''-'')" by (simp add: py_isspace_def)
    then have "py_strip ?s = ?s" using sp[of _ "nat (- n)"] by (intro py_strip_id) auto
    then show ?thesis using True by (simp add: py_int_def py_str_def py_digits_decimal)
  next
    case False
    let ?s = "?ds (nat n)"
    have "py_strip ?s = ?s" using sp[of _ "nat n"] by (intro py_strip_id) auto
    moreover obtain c cs where e: "?s = c # cs" using ne[of "nat n"] by (cases ?s) auto
    moreover have "c \<noteq> CHR ''+''" "c \<noteq> CHR ''-''" using hdp[of "nat n"] e by auto
    ultimately show ?thesis using False py_digits_decimal[of "nat n"]
      by (simp add: py_int_def py_str_def)
  qed
qed

lemma bind_None_iff: "(Option.bind x f = None) = (x = None \<or> (\<exists>v. x = Some v \<and> f v = None))"
  by (cases x) auto

lemma get_coords_None_iff:
  "(get_coords w = None) =
     (py_int 10 (start_x_entry w) = None \<or> py_int 10 (start_y_entry w) = None \<or>
      py_int 10 (end_x_entry w) = None \<or> py_int 10 (end_y_entry w) = None \<or>
      py_int 10 (button_x_entry w) = None \<or> py_int 10 (button_y_entry w) = None \<or>
      py_int 10 (hex_x_entry w) = None \<or> py_int 10 (hex_y_entry w) = None \<or>
      py_int 10 (mouse_speed_entry w) = None \<or> py_float (action_delay_entry w) = None \<or>
      py_int 10 (color_tolerance_entry w) = None)"
  unfolding get_coords_def bind_None_iff by auto

lemma get_coords_Some_iff:
  fixes c :: coords
  shows "(get_coords w = Some c) =
     (py_int 10 (start_x_entry w) = Some (start_x c) \<and> py_int 10 (start_y_entry w) = Some (start_y c) \<and>
      py_int 10 (end_x_entry w) = Some (end_x c) \<and> py_int 10 (end_y_entry w) = Some (end_y c) \<and>
      py_int 10 (button_x_entry w) = Some (button_x c) \<and> py_int 10 (button_y_entry w) = Some (button_y c) \<and>
      py_int 10 (hex_x_entry w) = Some (hex_x c) \<and> py_int 10 (hex_y_entry w) = Some (hex_y c) \<and>
      py_int 10 (mouse_speed_entry w) = Some (speed c) \<and> py_float (action_delay_entry w) = Some (delay c) \<and>
      py_int 10 (color_tolerance_entry w) = Some (tolerance c))"
  unfolding get_coords_def by (cases c) (auto split: Option.bind_splits)

text \<open>
  Claim C5, as stated, fails: a speed of 500, a delay of -1 and a tolerance of -5 are
  accepted.
\<close>

theorem C5_out_of_range_accepted:
  "get_coords (default_entries\<lparr>mouse_speed_entry := ''500'', action_delay_entry := ''-1'',
                                color_tolerance_entry := ''-5''\<rparr>)
     = Some \<lparr>start_x = 100, start_y = 100, end_x = 420, end_y = 420,
             button_x = 50, button_y = 500, hex_x = 150, hex_y = 500,
             speed = 500, delay = Finite (- 1), tolerance = - 5\<rparr>"
  by (simp add: get_coords_def default_entries_def py_parse_defs)

text \<open>
  Claim C5, amended. \<open>get_coords\<close> rejects exactly when one of the ten integer fields
  is not integer text or the delay is not float text, and then \<open>start_painting\<close> leaves
  the state as it was. No range is checked: where the entries are accepted they stay
  accepted with any integer written into the speed and tolerance fields and any float
  text in the delay field. An out-of-range speed is clamped later, by
  \<open>human_like_move\<close>.
\<close>

theorem C5_get_coords_rejects_unparsable_only:
  "(get_coords w = None) =
     (py_int 10 (start_x_entry w) = None \<or> py_int 10 (start_y_entry w) = None \<or>
      py_int 10 (end_x_entry w) = None \<or> py_int 10 (end_y_entry w) = None \<or>
      py_int 10 (button_x_entry w) = None \<or> py_int 10 (button_y_entry w) = None \<or>
      py_int 10 (hex_x_entry w) = None \<or> py_int 10 (hex_y_entry w) = None \<or>
      py_int 10 (mouse_speed_entry w) = None \<or> py_float (action_delay_entry w) = None \<or>
      py_int 10 (color_tolerance_entry w) = None)
   \<and> (get_coords w = None \<longrightarrow> start_painting w g st = (None, st))
   \<and> (get_coords w = Some c \<and> py_float dtext = Some d \<longrightarrow>
        get_coords (w\<lparr>mouse_speed_entry := py_str sp, action_delay_entry := dtext,
                        color_tolerance_entry := py_str tol\<rparr>)
          = Some (c\<lparr>speed := sp, delay := d, tolerance := tol\<rparr>))
   \<and> 1 \<le> autoit_speed sp \<and> autoit_speed sp \<le> 100"
proof -
  have 2: "get_coords w = None \<longrightarrow> start_painting w g st = (None, st)"
    by (simp add: start_painting_def)
  have 3: "get_coords w = Some c \<and> py_float dtext = Some d \<longrightarrow>
        get_coords (w\<lparr>mouse_speed_entry := py_str sp, action_delay_entry := dtext,
                        color_tolerance_entry := py_str tol\<rparr>)
          = Some (c\<lparr>speed := sp, delay := d, tolerance := tol\<rparr>)"
    by (simp add: get_coords_Some_iff py_int_py_str)
  have 4: "1 \<le> autoit_speed sp \<and> autoit_speed sp \<le> 100"
    by (simp add: autoit_speed_def)
  from get_coords_None_iff[of w] 2 3 4 show ?thesis by blast
qed

theorem C5_get_coords_witness:
  "get_coords default_entries
      = Some \<lparr>start_x = 100, start_y = 100, end_x = 420, end_y = 420,
             button_x = 50, button_y = 500, hex_x = 150, hex_y = 500,
             speed = 10, delay = Finite (2 / 25), tolerance = 30\<rparr>
   \<and> py_float ''-1'' = Some (Finite (- 1))
   \<and> get_coords (default_entries\<lparr>mouse_speed_entry := py_str 500, action_delay_entry := ''-1'',
                        color_tolerance_entry := py_str (- 5)\<rparr>)
      = Some \<lparr>start_x = 100, start_y = 100, end_x = 420, end_y = 420,
             button_x = 50, button_y = 500, hex_x = 150, hex_y = 500,
             speed = 500, delay = Finite (- 1), tolerance = - 5\<rparr>
   \<and> get_coords (default_entries\<lparr>end_x_entry := ''4 20''\<rparr>) = None
   \<and> start_painting (default_entries\<lparr>end_x_entry := ''4 20''\<rparr>) example_grid init_painter
      = (None, init_painter)
   \<and> autoit_speed 500 = 1"
proof -
  let ?c = "\<lparr>start_x = 100, start_y = 100, end_x = 420, end_y = 420,
             button_x = 50, button_y = 500, hex_x = 150, hex_y = 500,
             speed = 10, delay = Finite (2 / 25), tolerance = 30\<rparr>"
  have a: "get_coords default_entries = Some ?c"
    by (simp add: get_coords_def default_entries_def py_parse_defs)
  have b: "py_float ''-1'' = Some (Finite (- 1))" by (simp add: py_parse_defs)
  have n: "get_coords (default_entries\<lparr>end_x_entry := ''4 20''\<rparr>) = None"
    by (simp add: get_coords_def default_entries_def py_parse_defs)
  note t = C5_get_coords_rejects_unparsable_only[where w = default_entries and c = ?c
      and dtext = "''-1''" and d = "Finite (- 1)" and sp = 500 and tol = "- 5"]
  note u = C5_get_coords_rejects_unparsable_only[where
      w = "default_entries\<lparr>end_x_entry := ''4 20''\<rparr>" and g = example_grid and st = init_painter]
  have s: "autoit_speed 500 = 1" using t by (simp add: autoit_speed_def)
  have p: "get_coords (default_entries\<lparr>mouse_speed_entry := py_str 500, action_delay_entry := ''-1'',
                        color_tolerance_entry := py_str (- 5)\<rparr>)
      = Some (?c\<lparr>speed := 500, delay := Finite (- 1), tolerance := - 5\<rparr>)"
    using t a b by blast
  have q: "start_painting (default_entries\<lparr>end_x_entry := ''4 20''\<rparr>) example_grid init_painter
      = (None, init_painter)"
    using u n by blast
  from a b n p q s show ?thesis by simp
qed

section \<open>Facts about the painting loop\<close>

lemma spec_walk_step:
  "spec_walk tol l (p # ps) = fst (spec_step tol l p) @ spec_walk tol (snd (spec_step tol l p)) ps"
  by (cases p) (simp add: spec_step_def pixel_color_def pixel_place_def)

lemma parsesE: "parses h \<Longrightarrow> \<exists>r g b. parse_rgb h = Inr (r, g, b)"
  by (cases "parse_rgb h") (auto simp: parses_def)

lemma needs_color_change_spec:
  assumes "case prev of None \<Rightarrow> True | Some l \<Rightarrow> parses l" "parses col"
  shows "needs_color_change prev col tol = Inr (spec_selects prev col tol)"
proof (cases prev)
  case None
  then show ?thesis by (simp add: needs_color_change_def spec_selects_def)
next
  case (Some l)
  with assms obtain r1 g1 b1 r2 g2 b2 where
    p: "parse_rgb l = Inr (r1, g1, b1)" "parse_rgb col = Inr (r2, g2, b2)"
    using parsesE by fastforce
  have "real_of_int ((r2 - r1)\<^sup>2 + (g2 - g1)\<^sup>2 + (b2 - b1)\<^sup>2)
      = (real_of_int r1 - real_of_int r2)\<^sup>2 + (real_of_int g1 - real_of_int g2)\<^sup>2
        + (real_of_int b1 - real_of_int b2)\<^sup>2"
    by (simp add: power2_commute)
  then show ?thesis using Some p
    by (simp add: needs_color_change_def spec_selects_def calculate_color_distance_def
        spec_distance_def not_le)
qed

text \<open>Fields that only the worker's actions touch.\<close>

lemma controller_keeps:
  "actions (controller sch st) = actions st"
  "previous_color (controller sch st) = previous_color st"
  "painted_pixels (controller sch st) = painted_pixels st"
  "clicks (controller sch st) = clicks st"
proof -
  have step: "actions (ctl_step s x) = actions s \<and> previous_color (ctl_step s x) = previous_color s
     \<and> painted_pixels (ctl_step s x) = painted_pixels s \<and> clicks (ctl_step s x) = clicks s" for s x
    by (cases x) (simp_all add: toggle_pause_def abort_painting_def on_ctrl_press_def log_status_def Let_def)
  have "actions (foldl ctl_step s b) = actions s \<and> previous_color (foldl ctl_step s b) = previous_color s
     \<and> painted_pixels (foldl ctl_step s b) = painted_pixels s \<and> clicks (foldl ctl_step s b) = clicks s" for s b
    by (induction b arbitrary: s) (simp_all add: step)
  then show "actions (controller sch st) = actions st"
  "previous_color (controller sch st) = previous_color st"
  "painted_pixels (controller sch st) = painted_pixels st"
  "clicks (controller sch st) = clicks st"
    by (simp_all add: controller_def split: list.splits)
qed

lemma pause_wait_keeps:
  "pause_wait st sch = Some (ab, st', sch') \<Longrightarrow>
     actions st' = actions st \<and> previous_color st' = previous_color st
     \<and> painted_pixels st' = painted_pixels st \<and> clicks st' = clicks st"
proof (induction st sch rule: pause_wait.induct)
  case (1 st sch)
  show ?case
  proof (cases "is_paused (controller sch st)")
    case False
    with "1.prems" show ?thesis
      by (subst (asm) pause_wait.simps) (auto simp: Let_def controller_keeps)
  next
    case True
    note p = True
    show ?thesis
    proof (cases "should_abort (controller (tl sch) (controller sch st))")
      case True
      with p "1.prems" show ?thesis
        by (subst (asm) pause_wait.simps) (auto simp: Let_def controller_keeps finish_painting_def)
    next
      case False
      note a = False
      show ?thesis
      proof (cases "tl (tl sch) = []")
        case True
        with p a "1.prems" show ?thesis by (subst (asm) pause_wait.simps) (simp add: Let_def)
      next
        case False
        with p a "1.prems" have
          "pause_wait (controller (tl sch) (controller sch st)) (tl (tl sch)) = Some (ab, st', sch')"
          by (subst (asm) pause_wait.simps) (simp add: Let_def)
        moreover from p have "\<not> \<not> is_paused (controller sch st)" by simp
        ultimately show ?thesis using "1.IH"[OF refl refl _ refl refl a False]
          by (simp add: controller_keeps)
      qed
    qed
  qed
qed

lemma select_color_cases:
  "select_color E c i tot p st =
     (case device E (length (actions st)) of
        Some e \<Rightarrow> Inl (e, log_status (LogPixelColor (i + 1) tot (pixel_color p) (fst p)) st)
      | None \<Rightarrow> Inr ((log_status (LogPixelColor (i + 1) tot (pixel_color p) (fst p)) st)
           \<lparr>clicks := clicks st @ [(button_x c, button_y c), (hex_x c, hex_y c), (button_x c, button_y c)],
            actions := actions st @ [SelectColor (pixel_color p)],
            color_changes := color_changes st + 1,
            previous_color := Some (pixel_color p)\<rparr>))"
  by (cases p) (simp add: select_color_def pixel_color_def log_status_def Let_def split: option.splits)

lemma place_tile_cases:
  "place_tile E c i tot p st =
     (case device E (length (actions st)) of
        Some e \<Rightarrow> Inl (e, st)
      | None \<Rightarrow> Inr (st
           \<lparr>clicks := clicks st @ [(py_trunc (real_of_int (fst (snd (snd (snd (snd p))))) + fst (jitter E (painted_pixels st))),
                                   py_trunc (real_of_int (snd (snd (snd (snd (snd p))))) + snd (jitter E (painted_pixels st))))],
            actions := actions st @ [pixel_place p],
            painted_pixels := painted_pixels st + 1,
            progress := real (i + 1) / real tot * 100\<rparr>))"
  by (cases p) (simp add: place_tile_def pixel_place_def split: option.splits prod.splits)

text \<open>A cell that goes through: the actions of the specification's step are appended.\<close>

lemma paint_one_Inr:
  assumes "paint_one E c i tot p st = Inr st'" "prev_ok st" "parses (pixel_color p)"
  shows "actions st' = actions st @ fst (spec_step (tolerance c) (previous_color st) p)"
    and "previous_color st' = snd (spec_step (tolerance c) (previous_color st) p)"
    and "is_paused st' = is_paused st" "should_abort st' = should_abort st"
    and "is_painting st' = is_painting st" "pause_btn st' = pause_btn st" "abort_btn st' = abort_btn st"
    and "start_btn st' = start_btn st"
    and "painted_pixels st' = painted_pixels st + 1"
    and "prev_ok st'"
proof -
  have n: "needs_color_change (previous_color st) (pixel_color p) (tolerance c)
      = Inr (spec_selects (previous_color st) (pixel_color p) (tolerance c))"
    using assms(2,3) by (intro needs_color_change_spec) (simp_all add: prev_ok_def)
  show "actions st' = actions st @ fst (spec_step (tolerance c) (previous_color st) p)"
    and "previous_color st' = snd (spec_step (tolerance c) (previous_color st) p)"
    and "is_paused st' = is_paused st" "should_abort st' = should_abort st"
    and "is_painting st' = is_painting st" "pause_btn st' = pause_btn st" "abort_btn st' = abort_btn st"
    and "start_btn st' = start_btn st"
    and "painted_pixels st' = painted_pixels st + 1"
    and "prev_ok st'"
    using assms(1,2,3) n[unfolded pixel_color_def]
    by (auto simp: paint_one_def select_color_cases place_tile_cases spec_step_def log_status_def
        prev_ok_def pixel_color_def split: option.splits if_splits sum.splits)
qed

text \<open>A cell that raises: a proper prefix of the step's actions was appended.\<close>

lemma paint_one_Inl:
  assumes "paint_one E c i tot p st = Inl (e, st')" "prev_ok st" "parses (pixel_color p)"
  shows "\<exists>acts. actions st' = actions st @ acts
            \<and> strict_prefix acts (fst (spec_step (tolerance c) (previous_color st) p))"
    and "device E (length (actions st')) = Some e"
proof -
  have n: "needs_color_change (previous_color st) (pixel_color p) (tolerance c)
      = Inr (spec_selects (previous_color st) (pixel_color p) (tolerance c))"
    using assms(2,3) by (intro needs_color_change_spec) (simp_all add: prev_ok_def)
  show "\<exists>acts. actions st' = actions st @ acts
            \<and> strict_prefix acts (fst (spec_step (tolerance c) (previous_color st) p))"
    using assms(1) n[unfolded pixel_color_def]
    by (auto simp: paint_one_def select_color_cases place_tile_cases spec_step_def log_status_def
        pixel_color_def strict_prefix_def split: option.splits if_splits sum.splits)
  show "device E (length (actions st')) = Some e"
    using assms(1) n[unfolded pixel_color_def]
    by (auto simp: paint_one_def select_color_cases place_tile_cases spec_step_def log_status_def
        pixel_color_def split: option.splits if_splits sum.splits)
qed

lemma prev_ok_controller: "prev_ok (controller sch st) = prev_ok st"
  by (simp add: prev_ok_def controller_keeps)

lemma prev_ok_pause_wait: "pause_wait st sch = Some (ab, st', sch') \<Longrightarrow> prev_ok st' = prev_ok st"
  by (simp add: prev_ok_def pause_wait_keeps)

text \<open>
  The loop against the walk of the specification: whatever the controller and the
  devices do, the actions done are a prefix of the walk, and all of it when the loop
  runs to its end.
\<close>

lemma paint_pixels_trace:
  assumes "paint_pixels E c tot i ps st sch = (ex, st')" "prev_ok st"
    "list_all (\<lambda>p. parses (pixel_color p)) ps"
  shows "\<exists>acts. actions st' = actions st @ acts
           \<and> prefix acts (spec_walk (tolerance c) (previous_color st) ps)
           \<and> (ex = Done \<longrightarrow> acts = spec_walk (tolerance c) (previous_color st) ps)
           \<and> (ex \<noteq> Done \<longrightarrow> acts \<noteq> spec_walk (tolerance c) (previous_color st) ps)"
  using assms
proof (induction ps arbitrary: st sch i)
  case Nil
  then show ?case by simp
next
  case (Cons p ps)
  let ?st1 = "controller sch st"
  let ?w = "spec_walk (tolerance c) (previous_color st) (p # ps)"
  have wne: "?w \<noteq> []" by (cases p) simp
  have k1: "actions ?st1 = actions st" "previous_color ?st1 = previous_color st"
    by (simp_all add: controller_keeps)
  show ?case
  proof (cases "should_abort ?st1")
    case True
    with Cons.prems(1) have "ex = AbortReturn" "st' = finish_painting (log_status LogAborted ?st1)"
      by (simp_all add: Let_def)
    then have "actions st' = actions st @ []" "ex \<noteq> Done"
      by (simp_all add: finish_painting_def log_status_def k1)
    then show ?thesis using wne by (intro exI[of _ "[]"]) simp
  next
    case False
    note na = False
    show ?thesis
    proof (cases "pause_wait ?st1 (tl sch)")
      case None
      with na Cons.prems(1) have "ex = Stalled" "st' = ?st1" by (simp_all add: Let_def)
      then show ?thesis using wne k1 by (intro exI[of _ "[]"]) simp
    next
      case (Some r)
      obtain ab st2 sch2 where r: "r = (ab, st2, sch2)" by (cases r)
      note pw = Some[unfolded r]
      have k2: "actions st2 = actions st" "previous_color st2 = previous_color st"
        using pause_wait_keeps[OF pw] k1 by simp_all
      have ok2: "prev_ok st2" using prev_ok_pause_wait[OF pw] prev_ok_controller Cons.prems(2) by simp
      show ?thesis
      proof (cases ab)
        case True
        with na pw Cons.prems(1) have "ex = AbortReturnPaused" "st' = st2" by (simp_all add: Let_def)
        then show ?thesis using wne k2 by (intro exI[of _ "[]"]) simp
      next
        case False
        note nab = False
        have pp: "parses (pixel_color p)" using Cons.prems(3) by simp
        let ?stp = "spec_step (tolerance c) (previous_color st) p"
        show ?thesis
        proof (cases "paint_one E c i tot p st2")
          case (Inl x)
          obtain e st3 where x: "x = (e, st3)" by (cases x)
          from na pw nab Inl x Cons.prems(1) have ex: "ex = Raise e" "st' = st3" by (simp_all add: Let_def)
          from paint_one_Inl(1)[OF Inl[unfolded x] ok2 pp] obtain acts where
            a: "actions st3 = actions st2 @ acts" "strict_prefix acts (fst ?stp)"
            using k2 by auto
          have "prefix acts ?w" using a(2) by (simp add: spec_walk_step strict_prefix_def prefix_prefix)
          moreover have "acts \<noteq> ?w" using a(2)
            by (metis prefix_order.less_le_not_le prefix_prefix spec_walk_step prefix_order.order_refl)
          ultimately show ?thesis using ex a k2 by (intro exI[of _ acts]) simp
        next
          case (Inr st3)
          from na pw nab Inr Cons.prems(1) have
            rec: "paint_pixels E c tot (Suc i) ps st3 sch2 = (ex, st')" by (simp add: Let_def)
          note o = paint_one_Inr[OF Inr ok2 pp]
          from Cons.IH[OF rec o(10)] Cons.prems(3) obtain acts where
            a: "actions st' = actions st3 @ acts"
               "prefix acts (spec_walk (tolerance c) (previous_color st3) ps)"
               "ex = Done \<longrightarrow> acts = spec_walk (tolerance c) (previous_color st3) ps"
               "ex \<noteq> Done \<longrightarrow> acts \<noteq> spec_walk (tolerance c) (previous_color st3) ps"
            by auto
          have w: "?w = fst ?stp @ spec_walk (tolerance c) (previous_color st3) ps"
            using o(2) k2 by (simp add: spec_walk_step)
          show ?thesis using a o(1) k2 w by (intro exI[of _ "fst ?stp @ acts"]) simp
        qed
      qed
    qed
  qed
qed

section \<open>Facts about the collected pixels\<close>

lemma collect_Inr_rel: "collect (map f js) = Inr vs \<Longrightarrow> list_all2 (\<lambda>i v. f i = Inr v) js vs"
  by (induction js arbitrary: vs) (auto split: sum.splits)
lemma list_all2_map_eq: "list_all2 (\<lambda>i p. f i = h p) xs ys \<Longrightarrow> map f xs = map h ys"
  by (induction rule: list_all2_induct) auto

lemma concat_map_pairs:
  "concat (map (\<lambda>y. map (\<lambda>x. f y x) xs) ys)
     = map (\<lambda>i. f (fst i) (snd i)) (concat (map (\<lambda>y. map (\<lambda>x. (y, x)) xs) ys))"
  by (induction ys) (simp_all add: comp_def)

lemma collect_pixels_alt:
  "collect_pixels g c tw th = collect (map (\<lambda>i. pixel_at g c tw th (fst i) (snd i)) cell_index)"
  unfolding collect_pixels_def cell_index_def
  by (rule arg_cong[where f = collect]) (rule concat_map_pairs)

lemma all_cells_alt: "all_cells = map (\<lambda>i. (snd i, fst i)) cell_index"
  unfolding all_cells_def cell_index_def by (rule concat_map_pairs)

lemma pixel_at_Inr:
  assumes "pixel_at g c tw th y x = Inr p"
  shows "pixel_cell p = (x, y)" "parses (pixel_color p)"
    "y < length g" "x < length (g ! y)" "pixel_color p = py_lower (g ! y ! x)"
    "calculate_luminance (pixel_color p) = Inr (fst p)"
    "(fst (snd (snd (snd (snd p)))), snd (snd (snd (snd (snd p))))) = get_tile_position x y c tw th"
proof -
  from assms obtain row col lum where
    a: "py_index g y = Inr row" and b: "py_index row x = Inr col"
    and l: "calculate_luminance (py_lower col) = Inr lum"
    and p: "p = (lum, py_lower col, x, y, get_tile_position x y c tw th)"
    unfolding pixel_at_def by (auto split: sum.splits prod.splits)
  from a have y: "y < length g" "row = g ! y" by (auto simp: py_index_def split: if_splits)
  from b have x: "x < length row" "col = row ! x" by (auto simp: py_index_def split: if_splits)
  show "pixel_cell p = (x, y)" by (simp add: p pixel_cell_def)
  show "y < length g" by (rule y)
  show "x < length (g ! y)" using x y by simp
  show "pixel_color p = py_lower (g ! y ! x)" using x y by (simp add: p pixel_color_def)
  show "calculate_luminance (pixel_color p) = Inr (fst p)" using l by (simp add: p pixel_color_def)
  then show "parses (pixel_color p)"
    by (auto simp: calculate_luminance_def parses_def split: sum.splits)
  show "(fst (snd (snd (snd (snd p)))), snd (snd (snd (snd (snd p))))) = get_tile_position x y c tw th"
    by (simp add: p)
qed

lemma list_all2_set2: "list_all2 R xs ys \<Longrightarrow> y \<in> set ys \<Longrightarrow> \<exists>x\<in>set xs. R x y"
  by (induction rule: list_all2_induct) auto

lemma collect_pixels_Inr:
  assumes "collect_pixels g c tw th = Inr ps"
  shows "map pixel_cell ps = all_cells"
    and "list_all (\<lambda>p. parses (pixel_color p)) ps"
    and "list_all2 (\<lambda>i p. pixel_at g c tw th (fst i) (snd i) = Inr p) cell_index ps"
proof -
  have "collect (map (\<lambda>i. pixel_at g c tw th (fst i) (snd i)) cell_index) = Inr ps"
    using assms by (simp only: collect_pixels_alt)
  then show r: "list_all2 (\<lambda>i p. pixel_at g c tw th (fst i) (snd i) = Inr p) cell_index ps"
    by (rule collect_Inr_rel)
  have "list_all2 (\<lambda>i p. (snd i, fst i) = pixel_cell p) cell_index ps"
    using r
  proof (rule list_all2_mono)
    fix i p assume "pixel_at g c tw th (fst i) (snd i) = Inr p"
    from pixel_at_Inr(1)[OF this] show "(snd i, fst i) = pixel_cell p" by simp
  qed
  then have "map (\<lambda>i. (snd i, fst i)) cell_index = map pixel_cell ps"
    by (rule list_all2_map_eq)
  then show "map pixel_cell ps = all_cells" by (simp only: all_cells_alt)
  have "\<forall>p\<in>set ps. parses (pixel_color p)"
  proof
    fix p assume "p \<in> set ps"
    from list_all2_set2[OF r this] obtain i where "pixel_at g c tw th (fst i) (snd i) = Inr p" by blast
    then show "parses (pixel_color p)" by (rule pixel_at_Inr(2))
  qed
  then show "list_all (\<lambda>p. parses (pixel_color p)) ps" by (simp only: list_all_iff)
qed

lemma length_all_cells: "length all_cells = 1024"
  by (simp add: all_cells_def length_concat comp_def sum_list_triv)

lemma distinct_all_cells: "distinct all_cells"
  unfolding all_cells_def
  by (rule distinct_concat) (auto simp: distinct_map inj_on_def)

section \<open>Facts about the whole run\<close>

lemma sort_pixels_facts:
  "set (sort_pixels ps) = set ps" "mset (sort_pixels ps) = mset ps"
  "length (sort_pixels ps) = length ps" "sorted (map fst (sort_pixels ps))"
  "filter (\<lambda>p. fst p = k) (sort_pixels ps) = filter (\<lambda>p. fst p = k) ps"
  by (simp_all add: sort_pixels_def sort_key_stable)

lemma log_status_keeps:
  "actions (log_status m st) = actions st" "previous_color (log_status m st) = previous_color st"
  "is_paused (log_status m st) = is_paused st" "should_abort (log_status m st) = should_abort st"
  "is_painting (log_status m st) = is_painting st" "pause_btn (log_status m st) = pause_btn st"
  "abort_btn (log_status m st) = abort_btn st" "start_btn (log_status m st) = start_btn st"
  "clicks (log_status m st) = clicks st"
  by (simp_all add: log_status_def)

lemma paint_body_Inl:
  "collect_pixels g c (fst (tile_size c)) (snd (tile_size c)) = Inl e \<Longrightarrow>
     fst (paint_body E g c st sch) = Raise e \<and> actions (snd (paint_body E g c st sch)) = actions st"
  by (simp add: paint_body_def Let_def case_prod_beta log_status_keeps)

lemma paint_body_Inr:
  assumes "collect_pixels g c (fst (tile_size c)) (snd (tile_size c)) = Inr ps"
    and "paint_pixels E c (length ps) 0 (sort_pixels ps) (loop_start c (length ps) st) sch = (ex, st4)"
  shows "paint_body E g c st sch = (ex, if ex = Done then loop_end st4 else st4)"
  using assms
  by (cases ex) (simp_all add: paint_body_def Let_def case_prod_beta loop_start_def loop_end_def
      sort_pixels_facts(3))

lemma loop_start_keeps:
  "actions (loop_start c n st) = actions st" "previous_color (loop_start c n st) = None"
  "prev_ok (loop_start c n st)"
  "is_paused (loop_start c n st) = is_paused st" "should_abort (loop_start c n st) = should_abort st"
  "pause_btn (loop_start c n st) = pause_btn st" "abort_btn (loop_start c n st) = abort_btn st"
  "is_painting (loop_start c n st) = is_painting st" "painted_pixels (loop_start c n st) = 0"
  by (simp_all add: loop_start_def log_status_def prev_ok_def)

lemma painting_loop_alt:
  "painting_loop E g c st sch =
     (let r = paint_body E g c (st\<lparr>actions := [], clicks := []\<rparr>) sch
      in (fst r,
          (case fst r of Stalled \<Rightarrow> ThreadStuck
           | Raise e \<Rightarrow> if is_Exception e then ThreadReturned else ThreadEscaped e
           | _ \<Rightarrow> ThreadReturned),
          (case fst r of Stalled \<Rightarrow> snd r
           | Raise e \<Rightarrow> if is_Exception e then finish_painting (log_status (LogError e) (snd r))
                        else finish_painting (snd r)
           | _ \<Rightarrow> finish_painting (snd r))))"
  by (cases "paint_body E g c (st\<lparr>actions := [], clicks := []\<rparr>) sch")
     (simp add: painting_loop_def Let_def split: exit.splits)

lemma painting_loop_actions:
  "painting_loop E g c st sch = (ex, te, st') \<Longrightarrow>
     ex = fst (paint_body E g c (st\<lparr>actions := [], clicks := []\<rparr>) sch) \<and>
     actions st' = actions (snd (paint_body E g c (st\<lparr>actions := [], clicks := []\<rparr>) sch))"
  by (auto simp: painting_loop_alt Let_def finish_painting_def log_status_def split: exit.splits if_splits)

text \<open>
  The whole run against the walk: when the pixels cannot be collected the run raises
  before any action; otherwise its actions are a prefix of the walk over the sorted
  pixels, and the whole walk exactly when the run is complete.
\<close>

lemma painting_loop_trace:
  assumes "painting_loop E g c st sch = (ex, te, st')"
  shows "case collect_pixels g c (fst (tile_size c)) (snd (tile_size c)) of
           Inl e \<Rightarrow> ex = Raise e \<and> actions st' = []
         | Inr ps \<Rightarrow> prefix (actions st') (spec_walk (tolerance c) None (sort_pixels ps))
                     \<and> (ex = Done) = (actions st' = spec_walk (tolerance c) None (sort_pixels ps))"
proof (cases "collect_pixels g c (fst (tile_size c)) (snd (tile_size c))")
  case (Inl e)
  from paint_body_Inl[OF Inl, of E "st\<lparr>actions := [], clicks := []\<rparr>" sch]
    painting_loop_actions[OF assms] Inl
  show ?thesis by simp
next
  case (Inr ps)
  let ?st0 = "st\<lparr>actions := [], clicks := []\<rparr>"
  obtain ex0 st4 where
    pp: "paint_pixels E c (length ps) 0 (sort_pixels ps) (loop_start c (length ps) ?st0) sch = (ex0, st4)"
    by (cases "paint_pixels E c (length ps) 0 (sort_pixels ps) (loop_start c (length ps) ?st0) sch")
  have pa: "list_all (\<lambda>p. parses (pixel_color p)) (sort_pixels ps)"
    using collect_pixels_Inr(2)[OF Inr] by (simp add: list_all_iff sort_pixels_facts(1))
  from paint_pixels_trace[OF pp loop_start_keeps(3) pa] obtain acts where
    a: "actions st4 = acts" "prefix acts (spec_walk (tolerance c) None (sort_pixels ps))"
       "ex0 = Done \<longrightarrow> acts = spec_walk (tolerance c) None (sort_pixels ps)"
       "ex0 \<noteq> Done \<longrightarrow> acts \<noteq> spec_walk (tolerance c) None (sort_pixels ps)"
    by (auto simp: loop_start_keeps)
  have b: "paint_body E g c ?st0 sch = (ex0, if ex0 = Done then loop_end st4 else st4)"
    by (rule paint_body_Inr[OF Inr pp])
  have "actions (if ex0 = Done then loop_end st4 else st4) = actions st4"
    by (simp add: loop_end_def log_status_keeps)
  with painting_loop_actions[OF assms] b have "ex = ex0" "actions st' = actions st4" by simp_all
  with a Inr show ?thesis by auto
qed

section \<open>Facts about the walk of the specification\<close>

lemma placed_cells_Cons:
  "placed_cells (SelectColor h # acts) = placed_cells acts"
  "placed_cells (PlaceTile x y tx ty # acts) = (x, y) # placed_cells acts"
  "placed_cells [] = []"
  by (simp_all add: placed_cells_def)

lemma count_selects_Cons:
  "count_selects (SelectColor h # acts) = Suc (count_selects acts)"
  "count_selects (PlaceTile x y tx ty # acts) = count_selects acts"
  "count_selects [] = 0"
  by (simp_all add: count_selects_def is_select_def)

lemma placed_cells_walk: "placed_cells (spec_walk tol l ps) = map pixel_cell ps"
  by (induction ps arbitrary: l) (auto simp: placed_cells_Cons pixel_cell_def)

lemma count_selects_walk_le: "count_selects (spec_walk tol l ps) \<le> length ps"
proof (induction ps arbitrary: l)
  case Nil
  then show ?case by (simp add: count_selects_Cons)
next
  case (Cons p ps)
  obtain lum col x y tx ty where p: "p = (lum, col, x, y, tx, ty)" by (cases p)
  show ?case using Cons[of l] Cons[of "Some col"] by (simp add: p count_selects_Cons)
qed

lemma count_places_walk: "length (filter (\<lambda>a. \<not> is_select a) (spec_walk tol l ps)) = length ps"
  by (induction ps arbitrary: l) (auto simp: is_select_def)

lemma count_selects_walk_first:
  "ps \<noteq> [] \<Longrightarrow> 1 \<le> count_selects (spec_walk tol None ps)"
  by (cases ps) (auto simp: count_selects_Cons spec_selects_def)

lemma hd_walk_first:
  "spec_walk tol None (p # ps) = SelectColor (pixel_color p) # pixel_place p # spec_walk tol (Some (pixel_color p)) ps"
  by (cases p) (simp add: spec_selects_def pixel_color_def pixel_place_def)

text \<open>Colors all within tolerance of the last one: no further selection.\<close>

lemma count_selects_walk_within:
  "\<forall>p\<in>set ps. spec_distance l (pixel_color p) \<le> real_of_int tol \<Longrightarrow>
     count_selects (spec_walk tol (Some l) ps) = 0"
  by (induction ps) (auto simp: count_selects_Cons spec_selects_def pixel_color_def)

lemma count_selects_walk_one:
  assumes "ps \<noteq> []"
    "\<forall>p\<in>set ps. \<forall>q\<in>set ps. spec_distance (pixel_color p) (pixel_color q) \<le> real_of_int tol"
  shows "count_selects (spec_walk tol None ps) = 1"
proof -
  obtain p qs where e: "ps = p # qs" using assms(1) by (cases ps) auto
  have "count_selects (spec_walk tol (Some (pixel_color p)) qs) = 0"
    using assms(2) e by (intro count_selects_walk_within) simp
  moreover obtain lum col x y tx ty where "p = (lum, col, x, y, tx, ty)" by (cases p)
  ultimately show ?thesis by (simp add: e spec_selects_def count_selects_Cons pixel_color_def)
qed

lemma spec_distance_self: "spec_distance a a = 0"
  by (auto simp: spec_distance_def split: sum.splits)

lemma spec_distance_valid_le:
  assumes "valid_hex a" "valid_hex b"
  shows "spec_distance a b \<le> 442"
proof -
  from parse_rgb_valid[OF assms(1)] obtain r1 g1 b1 where
    a: "parse_rgb a = Inr (r1, g1, b1)" "0 \<le> r1" "r1 \<le> 255" "0 \<le> g1" "g1 \<le> 255" "0 \<le> b1" "b1 \<le> 255"
    by blast
  from parse_rgb_valid[OF assms(2)] obtain r2 g2 b2 where
    b: "parse_rgb b = Inr (r2, g2, b2)" "0 \<le> r2" "r2 \<le> 255" "0 \<le> g2" "g2 \<le> 255" "0 \<le> b2" "b2 \<le> 255"
    by blast
  have sq: "(x - y)\<^sup>2 \<le> 65025" if "0 \<le> x" "x \<le> 255" "0 \<le> y" "y \<le> 255" for x y :: int
  proof -
    have "\<bar>x - y\<bar> \<le> 255" using that by linarith
    then have "\<bar>x - y\<bar>\<^sup>2 \<le> 255\<^sup>2" by (intro power_mono) simp_all
    then show ?thesis by simp
  qed
  have n: "(r1 - r2)\<^sup>2 + (g1 - g2)\<^sup>2 + (b1 - b2)\<^sup>2 \<le> 195075"
    using sq[of r1 r2] sq[of g1 g2] sq[of b1 b2] a b by linarith
  have "spec_distance a b = sqrt (real_of_int ((r1 - r2)\<^sup>2 + (g1 - g2)\<^sup>2 + (b1 - b2)\<^sup>2))"
    by (simp add: spec_distance_def a b)
  also have "\<dots> \<le> sqrt (442\<^sup>2)"
  proof (intro real_sqrt_le_mono)
    have "real_of_int ((r1 - r2)\<^sup>2 + (g1 - g2)\<^sup>2 + (b1 - b2)\<^sup>2) \<le> real_of_int 195075"
      using n by (simp only: of_int_le_iff)
    also have "\<dots> \<le> 442\<^sup>2" by simp
    finally show "real_of_int ((r1 - r2)\<^sup>2 + (g1 - g2)\<^sup>2 + (b1 - b2)\<^sup>2) \<le> 442\<^sup>2" .
  qed
  finally show ?thesis by simp
qed

section \<open>Well-formed grids, undisturbed runs, first failures and aborts\<close>

lemma is_hex_lower: "is_hex ch \<Longrightarrow> is_hex (lower_char ch)"
  by (auto simp: is_hex_def digit_in_def digit_val_def lower_char_def Let_def split: if_splits)

lemma valid_hex_lower: "valid_hex h \<Longrightarrow> valid_hex (py_lower h)"
  by (auto simp: valid_hex_def py_lower_def list_all_iff is_hex_lower)

lemma valid_hex_parses: "valid_hex h \<Longrightarrow> parses h"
  using parse_rgb_valid[of h] by (auto simp: parses_def)

lemma set_pairs: "i \<in> set (concat (map (\<lambda>y. map (\<lambda>x. (y, x)) xs) ys)) = (fst i \<in> set ys \<and> snd i \<in> set xs)"
  by (cases i) auto

lemma cell_index_bounds: "i \<in> set cell_index \<Longrightarrow> fst i < 32 \<and> snd i < 32"
  unfolding cell_index_def set_pairs by (simp only: set_upt atLeastLessThan_iff)

lemma collect_all_Inr: "\<forall>i\<in>set js. \<exists>v. f i = Inr v \<Longrightarrow> \<exists>vs. collect (map f js) = Inr vs"
  by (induction js) auto

lemma wf_grid_pixel_at:
  assumes "wf_grid g" "y < 32" "x < 32"
  shows "\<exists>p. pixel_at g c tw th y x = Inr p \<and> valid_hex (pixel_color p)"
proof -
  from assms have y: "y < length g" and r: "length (g ! y) = 32" "list_all valid_hex (g ! y)"
    by (auto simp: wf_grid_def list_all_length)
  with assms have v: "valid_hex (g ! y ! x)" by (simp add: list_all_length)
  from parse_rgb_valid[OF valid_hex_lower[OF v]] obtain l where
    l: "calculate_luminance (py_lower (g ! y ! x)) = Inr l"
    by (auto simp: calculate_luminance_def)
  show ?thesis using y r assms(3) l valid_hex_lower[OF v]
    by (simp add: pixel_at_def py_index_def pixel_color_def case_prod_beta)
qed

lemma wf_grid_collect:
  assumes "wf_grid g"
  shows "\<exists>ps. collect_pixels g c tw th = Inr ps \<and> (\<forall>p\<in>set ps. valid_hex (pixel_color p))"
proof -
  have "\<forall>i\<in>set cell_index. \<exists>v. pixel_at g c tw th (fst i) (snd i) = Inr v"
    using wf_grid_pixel_at[OF assms] cell_index_bounds by blast
  from collect_all_Inr[OF this] obtain ps where ps: "collect_pixels g c tw th = Inr ps"
    by (auto simp only: collect_pixels_alt)
  have "\<forall>p\<in>set ps. valid_hex (pixel_color p)"
  proof
    fix p assume "p \<in> set ps"
    from list_all2_set2[OF collect_pixels_Inr(3)[OF ps] this] obtain i where
      i: "i \<in> set cell_index" "pixel_at g c tw th (fst i) (snd i) = Inr p" by blast
    with wf_grid_pixel_at[OF assms, of "fst i" "snd i" c tw th] cell_index_bounds[OF i(1)]
    show "valid_hex (pixel_color p)" by auto
  qed
  with ps show ?thesis by blast
qed

lemma collect_pixels_nonempty: "collect_pixels g c tw th = Inr ps \<Longrightarrow> length ps = 1024 \<and> ps \<noteq> []"
  using collect_pixels_Inr(1)[of g c tw th ps] length_all_cells
  by (metis length_map list.size(3) zero_neq_numeral)

lemma controller_Nil: "controller [] st = st"
  by (simp add: controller_def)

lemma pause_wait_not_paused: "\<not> is_paused (controller sch st) \<Longrightarrow> pause_wait st sch = Some (False, controller sch st, tl sch)"
  by (subst pause_wait.simps) (simp add: Let_def)

lemma paint_pixels_quiet:
  assumes "quiet E" "\<not> should_abort st" "\<not> is_paused st" "prev_ok st"
    "list_all (\<lambda>p. parses (pixel_color p)) ps"
  shows "fst (paint_pixels E c tot i ps st []) = Done"
  using assms(2-)
proof (induction ps arbitrary: st i)
  case Nil
  then show ?case by simp
next
  case (Cons p ps)
  have pp: "parses (pixel_color p)" using Cons.prems(4) by simp
  show ?case
  proof (cases "paint_one E c i tot p st")
    case (Inl x)
    obtain e st3 where "x = (e, st3)" by (cases x)
    from paint_one_Inl(2)[OF Inl[unfolded this] Cons.prems(3) pp] assms(1) show ?thesis
      by (simp add: quiet_def)
  next
    case (Inr st3)
    note o = paint_one_Inr[OF Inr Cons.prems(3) pp]
    have "fst (paint_pixels E c tot (Suc i) ps st3 []) = Done"
      using Cons.prems o by (intro Cons.IH) simp_all
    then show ?thesis using Cons.prems(1,2) Inr
      by (simp add: controller_Nil pause_wait_not_paused Let_def)
  qed
qed

lemma paint_pixels_first_fails:
  assumes "device E (length (actions st)) = Some e" "previous_color st = None"
    "\<not> should_abort st" "\<not> is_paused st"
  shows "fst (paint_pixels E c tot i (p # ps) st []) = Raise e"
  using assms
  by (simp add: controller_Nil pause_wait_not_paused Let_def paint_one_def needs_color_change_def
      select_color_cases log_status_def)

lemma paint_pixels_abort_top:
  assumes "abort_btn st = NORMAL"
  shows "paint_pixels E c tot i (p # ps) st ([PressAbort] # sch)
     = (AbortReturn, finish_painting (log_status LogAborted (abort_painting st)))"
  using assms by (simp add: controller_def abort_painting_def Let_def)

lemma paint_pixels_abort_paused:
  assumes "abort_btn st = NORMAL" "pause_btn st = NORMAL" "\<not> should_abort st" "\<not> is_paused st"
  shows "paint_pixels E c tot i (p # ps) st ([PressPause] # [] # [PressAbort] # sch)
     = (AbortReturnPaused, finish_painting (abort_painting (toggle_pause st)))"
proof -
  let ?st1 = "toggle_pause st"
  have c1: "controller ([PressPause] # [] # [PressAbort] # sch) st = ?st1"
    using assms by (simp add: controller_def)
  have f: "is_paused ?st1" "\<not> should_abort ?st1" "abort_btn ?st1 = NORMAL"
    using assms by (simp_all add: toggle_pause_def log_status_def Let_def)
  have c2: "controller ([] # [PressAbort] # sch) ?st1 = ?st1" by (simp add: controller_def)
  have c3: "controller ([PressAbort] # sch) ?st1 = abort_painting ?st1"
    using f by (simp add: controller_def)
  have pw: "pause_wait ?st1 ([] # [PressAbort] # sch)
      = Some (True, finish_painting (abort_painting ?st1), sch)"
    using f by (subst pause_wait.simps) (simp add: Let_def c2 c3 abort_painting_def)
  show ?thesis using f by (simp add: c1 pw Let_def)
qed

section \<open>The scheduler\<close>

lemma painting_loop_quiet:
  assumes "wf_grid g" "quiet E" "\<not> should_abort st" "\<not> is_paused st"
  shows "fst (painting_loop E g c st []) = Done"
proof -
  let ?st0 = "st\<lparr>actions := [], clicks := []\<rparr>"
  from wf_grid_collect[OF assms(1)] obtain ps where
    ps: "collect_pixels g c (fst (tile_size c)) (snd (tile_size c)) = Inr ps" by blast
  have pa: "list_all (\<lambda>p. parses (pixel_color p)) (sort_pixels ps)"
    using collect_pixels_Inr(2)[OF ps] by (simp add: list_all_iff sort_pixels_facts(1))
  obtain ex st4 where
    pp: "paint_pixels E c (length ps) 0 (sort_pixels ps) (loop_start c (length ps) ?st0) [] = (ex, st4)"
    by (cases "paint_pixels E c (length ps) 0 (sort_pixels ps) (loop_start c (length ps) ?st0) []")
  have "fst (paint_pixels E c (length ps) 0 (sort_pixels ps) (loop_start c (length ps) ?st0) []) = Done"
    using assms by (intro paint_pixels_quiet pa) (simp_all add: loop_start_keeps)
  with pp have "ex = Done" by simp
  with paint_body_Inr[OF ps pp] show ?thesis by (simp add: painting_loop_alt)
qed

lemma example_facts:
  "wf_grid example_grid" "quiet quiet_env"
  "\<not> should_abort example_state" "\<not> is_paused example_state"
  "abort_btn example_state = NORMAL" "pause_btn example_state = NORMAL"
proof -
  have v: "valid_hex ''1a2b3c''" by (simp add: valid_hex_def is_hex_def digit_in_def digit_val_def)
  then show "wf_grid example_grid" by (simp add: wf_grid_def example_grid_def list_all_iff)
  show "quiet quiet_env" by (simp add: quiet_def quiet_env_def)
  have g: "get_coords default_entries \<noteq> None"
    by (simp add: get_coords_def default_entries_def py_parse_defs)
  have ne: "example_grid \<noteq> []" by (simp add: example_grid_def)
  show "\<not> should_abort example_state" "\<not> is_paused example_state"
    "abort_btn example_state = NORMAL" "pause_btn example_state = NORMAL"
    using g ne by (auto simp: example_state_def start_painting_def)
qed

lemma example_collect:
  "collect_pixels example_grid example_coords (fst (tile_size example_coords)) (snd (tile_size example_coords))
     = Inr example_pixels"
  using wf_grid_collect[OF example_facts(1), of example_coords "fst (tile_size example_coords)"
      "snd (tile_size example_coords)"]
  by (auto simp: example_pixels_def)

lemma example_done: "fst example_run = Done"
  unfolding example_run_def by (rule painting_loop_quiet[OF example_facts(1-4)])

text \<open>
  Claim C1. Whatever the grid, the tolerance, the controller and the devices do, the
  actions of a run are a prefix of the walk of the specification over the sorted pixels
  (last color initially none; a selection before the placement exactly when the last
  color is none or its distance to the cell's color exceeds the tolerance), and the whole
  walk exactly when the run is complete. The decision of the code is the one of the
  specification: with no last color it selects, otherwise it selects exactly when the
  distance is greater than the tolerance, so a distance equal to the tolerance reuses
  the last color.
\<close>

theorem C1_select_iff_none_or_beyond_tolerance:
  assumes "painting_loop E g c st sch = (ex, te, st')"
    and "collect_pixels g c (fst (tile_size c)) (snd (tile_size c)) = Inr ps"
    and "parses l" "parses col"
  shows "prefix (actions st') (spec_walk (tolerance c) None (sort_pixels ps))
     \<and> (ex = Done) = (actions st' = spec_walk (tolerance c) None (sort_pixels ps))
     \<and> needs_color_change None col tol = Inr True
     \<and> needs_color_change (Some l) col tol = Inr (real_of_int tol < spec_distance l col)
     \<and> calculate_color_distance l col = Inr (spec_distance l col)
     \<and> (spec_distance l col = real_of_int tol \<longrightarrow> needs_color_change (Some l) col tol = Inr False)"
proof -
  from painting_loop_trace[OF assms(1)] assms(2) have
    1: "prefix (actions st') (spec_walk (tolerance c) None (sort_pixels ps))
     \<and> (ex = Done) = (actions st' = spec_walk (tolerance c) None (sort_pixels ps))" by simp
  have 2: "needs_color_change None col tol = Inr True" by (simp add: needs_color_change_def)
  have 3: "needs_color_change (Some l) col tol = Inr (real_of_int tol < spec_distance l col)"
    using needs_color_change_spec[of "Some l" col tol] assms(3,4) by (simp add: spec_selects_def)
  have 4: "calculate_color_distance l col = Inr (spec_distance l col)"
  proof -
    from assms(3,4) obtain r1 g1 b1 r2 g2 b2 where
      p: "parse_rgb l = Inr (r1, g1, b1)" "parse_rgb col = Inr (r2, g2, b2)"
      using parsesE by blast
    have "real_of_int ((r2 - r1)\<^sup>2 + (g2 - g1)\<^sup>2 + (b2 - b1)\<^sup>2)
      = (real_of_int r1 - real_of_int r2)\<^sup>2 + (real_of_int g1 - real_of_int g2)\<^sup>2
        + (real_of_int b1 - real_of_int b2)\<^sup>2"
      by (simp add: power2_commute)
    then show ?thesis by (simp add: calculate_color_distance_def spec_distance_def p)
  qed
  from 1 2 3 4 show ?thesis by simp
qed

lemma example_parses: "parses ''000000''" "parses ''00001e''"
  by (simp_all add: parses_def parse_rgb_def py_parse_defs)

lemma example_distance: "spec_distance ''000000'' ''00001e'' = 30"
proof -
  have "spec_distance ''000000'' ''00001e'' = sqrt (30\<^sup>2)"
    by (simp add: spec_distance_def parse_rgb_def py_parse_defs)
  then show ?thesis by simp
qed

theorem C1_select_witness:
  "painting_loop quiet_env example_grid example_coords example_state []
     = (fst example_run, fst (snd example_run), snd (snd example_run))
   \<and> collect_pixels example_grid example_coords (fst (tile_size example_coords))
        (snd (tile_size example_coords)) = Inr example_pixels
   \<and> parses ''000000'' \<and> parses ''00001e''
   \<and> fst example_run = Done
   \<and> actions (snd (snd example_run))
       = spec_walk (tolerance example_coords) None (sort_pixels example_pixels)
   \<and> needs_color_change None ''00001e'' 30 = Inr True
   \<and> spec_distance ''000000'' ''00001e'' = real_of_int 30
   \<and> needs_color_change (Some ''000000'') ''00001e'' 30 = Inr False
   \<and> needs_color_change (Some ''000000'') ''00001e'' 29 = Inr True"
proof -
  have r: "painting_loop quiet_env example_grid example_coords example_state []
     = (fst example_run, fst (snd example_run), snd (snd example_run))"
    by (simp add: example_run_def)
  note t = C1_select_iff_none_or_beyond_tolerance[OF r example_collect example_parses, of 30]
  note u = C1_select_iff_none_or_beyond_tolerance[OF r example_collect example_parses, of 29]
  have d: "spec_distance ''000000'' ''00001e'' = real_of_int 30" using example_distance by simp
  have a: "needs_color_change (Some ''000000'') ''00001e'' 30 = Inr False"
    using t d by blast
  have b: "needs_color_change (Some ''000000'') ''00001e'' 29 = Inr True"
    using u example_distance by simp
  from r example_collect example_parses example_done t d a b show ?thesis by simp
qed



text \<open>
  Claim C3. A complete run places every cell of the grid exactly once, 1024 placements
  in all, and makes between 1 and 1024 color selections; on a grid of one color and a
  tolerance that is not negative it makes exactly one. Complete runs exist: a run on a
  well-formed grid that nothing disturbs is complete.
\<close>

theorem C3_every_cell_once:
  assumes "painting_loop E g c st sch = (Done, te, st')"
  shows "mset (placed_cells (actions st')) = mset all_cells
     \<and> distinct (placed_cells (actions st'))
     \<and> length (filter (\<lambda>a. \<not> is_select a) (actions st')) = 1024
     \<and> 1 \<le> count_selects (actions st') \<and> count_selects (actions st') \<le> 1024
     \<and> (g = replicate 32 (replicate 32 k) \<and> 0 \<le> tolerance c \<longrightarrow> count_selects (actions st') = 1)
     \<and> (wf_grid g' \<and> quiet E' \<and> \<not> should_abort s \<and> \<not> is_paused s
          \<longrightarrow> fst (painting_loop E' g' c' s []) = Done)"
proof -
  let ?tw = "fst (tile_size c)" and ?th = "snd (tile_size c)"
  from painting_loop_trace[OF assms] obtain ps where
    ps: "collect_pixels g c ?tw ?th = Inr ps"
    and a: "actions st' = spec_walk (tolerance c) None (sort_pixels ps)"
    by (cases "collect_pixels g c ?tw ?th") auto
  have len: "length ps = 1024" "sort_pixels ps \<noteq> []"
    using collect_pixels_nonempty[OF ps] sort_pixels_facts(3)[of ps] by auto
  have pc: "placed_cells (actions st') = map pixel_cell (sort_pixels ps)"
    by (simp add: a placed_cells_walk)
  have m: "mset (placed_cells (actions st')) = mset all_cells"
    using collect_pixels_Inr(1)[OF ps] sort_pixels_facts(2)[of ps]
    by (metis pc mset_map)
  then have "distinct (placed_cells (actions st'))"
    using distinct_all_cells by (metis mset_eq_imp_distinct_iff)
  moreover have "length (filter (\<lambda>a. \<not> is_select a) (actions st')) = 1024"
    by (simp add: a count_places_walk sort_pixels_facts(3) len)
  moreover have "1 \<le> count_selects (actions st')" unfolding a by (rule count_selects_walk_first[OF len(2)])
  moreover have "count_selects (actions st') \<le> 1024"
    using count_selects_walk_le[of "tolerance c" None "sort_pixels ps"] by (simp add: a sort_pixels_facts(3) len)
  moreover have "count_selects (actions st') = 1" if g: "g = replicate 32 (replicate 32 k)" and t: "0 \<le> tolerance c"
  proof -
    have "pixel_color p = py_lower k" if "p \<in> set ps" for p
    proof -
      from list_all2_set2[OF collect_pixels_Inr(3)[OF ps] that] obtain i where
        i: "i \<in> set cell_index" "pixel_at g c ?tw ?th (fst i) (snd i) = Inr p" by blast
      from pixel_at_Inr(5)[OF i(2)] cell_index_bounds[OF i(1)] show ?thesis by (simp add: g)
    qed
    then have "\<forall>p\<in>set (sort_pixels ps). \<forall>q\<in>set (sort_pixels ps).
        spec_distance (pixel_color p) (pixel_color q) \<le> real_of_int (tolerance c)"
      using t by (simp add: sort_pixels_facts(1) spec_distance_self)
    from count_selects_walk_one[OF len(2) this] show ?thesis by (simp add: a)
  qed
  moreover have "fst (painting_loop E' g' c' s []) = Done"
    if "wf_grid g'" "quiet E'" "\<not> should_abort s" "\<not> is_paused s"
    using that by (rule painting_loop_quiet)
  ultimately show ?thesis using m by blast
qed

theorem C3_every_cell_once_witness:
  "painting_loop quiet_env example_grid example_coords example_state []
       = (Done, fst (snd example_run), snd (snd example_run))
   \<and> mset (placed_cells (actions (snd (snd example_run)))) = mset all_cells
   \<and> distinct (placed_cells (actions (snd (snd example_run))))
   \<and> length (filter (\<lambda>a. \<not> is_select a) (actions (snd (snd example_run)))) = 1024
   \<and> example_grid = replicate 32 (replicate 32 ''1a2b3c'') \<and> 0 \<le> tolerance example_coords
   \<and> count_selects (actions (snd (snd example_run))) = 1
   \<and> wf_grid example_grid \<and> quiet quiet_env \<and> \<not> should_abort example_state
   \<and> \<not> is_paused example_state
   \<and> fst (painting_loop quiet_env example_grid example_coords example_state []) = Done"
proof -
  have r1: "painting_loop quiet_env example_grid example_coords example_state []
       = (Done, fst (snd example_run), snd (snd example_run))"
    using example_done by (simp add: example_run_def prod_eq_iff)
  note t = C3_every_cell_once[OF r1, where k = "''1a2b3c''" and g' = example_grid and E' = quiet_env
      and s = example_state and c' = example_coords]
  have g: "example_grid = replicate 32 (replicate 32 ''1a2b3c'')" by (simp add: example_grid_def)
  have z: "0 \<le> tolerance example_coords" by (simp add: example_coords_def)
  have one: "count_selects (actions (snd (snd example_run))) = 1" using t g z by blast
  have d: "fst (painting_loop quiet_env example_grid example_coords example_state []) = Done"
    using t example_facts by blast
  from r1 t g z one example_facts(1-4) d show ?thesis by blast
qed

text \<open>
  Claim C6, as stated, presupposes that 441.67 is an accepted tolerance: it is not, the
  tolerance field is converted with \<open>int\<close> and no run starts.
\<close>

theorem C6_tolerance_441_67_rejected:
  "py_int 10 ''441.67'' = None
   \<and> get_coords (default_entries\<lparr>color_tolerance_entry := ''441.67''\<rparr>) = None
   \<and> start_painting (default_entries\<lparr>color_tolerance_entry := ''441.67''\<rparr>) example_grid init_painter
       = (None, init_painter)"
  by (simp add: start_painting_def get_coords_def default_entries_def py_parse_defs)


text \<open>
  Claim C6, amended. The tolerance is an integer; with a tolerance of at least 442, the
  least integer not below the greatest distance of two colors, a complete run on a
  well-formed grid makes exactly one color selection, its first action.
\<close>

theorem C6_one_selection_from_442:
  assumes "painting_loop E g c st sch = (Done, te, st')" "wf_grid g" "442 \<le> tolerance c"
  shows "count_selects (actions st') = 1
     \<and> (\<exists>h rest. actions st' = SelectColor h # rest \<and> count_selects rest = 0)"
proof -
  let ?tw = "fst (tile_size c)" and ?th = "snd (tile_size c)"
  from wf_grid_collect[OF assms(2)] obtain ps where
    ps: "collect_pixels g c ?tw ?th = Inr ps" and v: "\<forall>p\<in>set ps. valid_hex (pixel_color p)"
    by blast
  from painting_loop_trace[OF assms(1)] ps
  have a: "actions st' = spec_walk (tolerance c) None (sort_pixels ps)" by simp
  have ne: "sort_pixels ps \<noteq> []"
    using collect_pixels_nonempty[OF ps] sort_pixels_facts(3)[of ps] by auto
  have "spec_distance (pixel_color p) (pixel_color q) \<le> real_of_int (tolerance c)"
    if "p \<in> set ps" "q \<in> set ps" for p q
  proof -
    have "spec_distance (pixel_color p) (pixel_color q) \<le> 442"
      using that v by (intro spec_distance_valid_le) auto
    also have "\<dots> \<le> real_of_int (tolerance c)" using assms(3) by simp
    finally show ?thesis .
  qed
  then have "\<forall>p\<in>set (sort_pixels ps). \<forall>q\<in>set (sort_pixels ps).
        spec_distance (pixel_color p) (pixel_color q) \<le> real_of_int (tolerance c)"
    by (simp add: sort_pixels_facts(1))
  from count_selects_walk_one[OF ne this] have one: "count_selects (actions st') = 1" by (simp add: a)
  obtain p qs where e: "sort_pixels ps = p # qs" using ne by (cases "sort_pixels ps") auto
  have "actions st' = SelectColor (pixel_color p) # (pixel_place p # spec_walk (tolerance c) (Some (pixel_color p)) qs)"
    by (simp add: a e hd_walk_first)
  moreover from this one have "count_selects (pixel_place p # spec_walk (tolerance c) (Some (pixel_color p)) qs) = 0"
    by (simp add: count_selects_Cons)
  ultimately show ?thesis using one by blast
qed

theorem C6_one_selection_witness:
  "painting_loop quiet_env example_grid wide_coords example_state []
       = (Done, fst (snd (painting_loop quiet_env example_grid wide_coords example_state [])),
          snd (snd (painting_loop quiet_env example_grid wide_coords example_state [])))
   \<and> wf_grid example_grid \<and> 442 \<le> tolerance wide_coords
   \<and> count_selects (actions (snd (snd (painting_loop quiet_env example_grid wide_coords example_state []))))
       = 1"
proof -
  let ?r = "painting_loop quiet_env example_grid wide_coords example_state []"
  have "fst ?r = Done" by (rule painting_loop_quiet[OF example_facts(1-4)])
  then have r: "?r = (Done, fst (snd ?r), snd (snd ?r))" by (simp add: prod_eq_iff)
  have w: "442 \<le> tolerance wide_coords" by (simp add: wide_coords_def)
  from C6_one_selection_from_442[OF r example_facts(1) w] r example_facts(1) w show ?thesis by blast
qed

section \<open>The remembered color\<close>

lemma distance_is_spec:
  assumes "parses l" "parses col"
  shows "calculate_color_distance l col = Inr (spec_distance l col)"
proof -
  from assms obtain r1 g1 b1 r2 g2 b2 where
    p: "parse_rgb l = Inr (r1, g1, b1)" "parse_rgb col = Inr (r2, g2, b2)"
    using parsesE by blast
  have "real_of_int ((r2 - r1)\<^sup>2 + (g2 - g1)\<^sup>2 + (b2 - b1)\<^sup>2)
      = (real_of_int r1 - real_of_int r2)\<^sup>2 + (real_of_int g1 - real_of_int g2)\<^sup>2
        + (real_of_int b1 - real_of_int b2)\<^sup>2"
    by (simp add: power2_commute)
  then show ?thesis by (simp add: calculate_color_distance_def spec_distance_def p)
qed

lemma paint_one_Inr_changes:
  assumes "paint_one E c i tot p st = Inr st'" "prev_ok st" "parses (pixel_color p)"
  shows "color_changes st' = color_changes st
            + (if spec_selects (previous_color st) (pixel_color p) (tolerance c) then 1 else 0)"
proof -
  have n: "needs_color_change (previous_color st) (pixel_color p) (tolerance c)
      = Inr (spec_selects (previous_color st) (pixel_color p) (tolerance c))"
    using assms(2,3) by (intro needs_color_change_spec) (simp_all add: prev_ok_def)
  show ?thesis
    using assms(1) n[unfolded pixel_color_def]
    by (auto simp: paint_one_def select_color_cases place_tile_cases log_status_def
        pixel_color_def split: option.splits if_splits sum.splits)
qed

lemma example_pixel_step:
  "paint_one quiet_env negative_coords 0 1024 example_pixel init_painter
     = Inr (init_painter\<lparr>
         status_log := [LogPixelColor 1 1024 ''1a2b3c'' 0],
         progress := 100 / 1024,
         painted_pixels := 1, color_changes := 1, previous_color := Some ''1a2b3c'',
         actions := [SelectColor ''1a2b3c'', PlaceTile 0 0 105 415],
         clicks := [(50, 500), (150, 500), (50, 500), (105, 415)]\<rparr>)"
  by (simp add: paint_one_def needs_color_change_def select_color_def place_tile_def log_status_def
      quiet_env_def negative_coords_def example_coords_def example_pixel_def init_painter_def
      py_trunc_def)

text \<open>
  Claim C10, as stated, fails for a negative tolerance, which \<open>get_coords\<close> accepts:
  the first cell is selected and placed at distance 0, which is not at most -1.
\<close>

theorem C10_negative_tolerance:
  "get_coords (default_entries\<lparr>color_tolerance_entry := ''-1''\<rparr>)
     = Some \<lparr>start_x = 100, start_y = 100, end_x = 420, end_y = 420,
             button_x = 50, button_y = 500, hex_x = 150, hex_y = 500,
             speed = 10, delay = Finite (2 / 25), tolerance = - 1\<rparr>
   \<and> tolerance negative_coords = - 1
   \<and> previous_color (projr (paint_one quiet_env negative_coords 0 1024 example_pixel init_painter))
       = Some ''1a2b3c''
   \<and> actions (projr (paint_one quiet_env negative_coords 0 1024 example_pixel init_painter))
       = [SelectColor ''1a2b3c'', PlaceTile 0 0 105 415]
   \<and> calculate_color_distance ''1a2b3c'' (pixel_color example_pixel) = Inr 0
   \<and> \<not> (0 :: real) \<le> real_of_int (tolerance negative_coords)"
proof -
  have a: "get_coords (default_entries\<lparr>color_tolerance_entry := ''-1''\<rparr>)
     = Some \<lparr>start_x = 100, start_y = 100, end_x = 420, end_y = 420,
             button_x = 50, button_y = 500, hex_x = 150, hex_y = 500,
             speed = 10, delay = Finite (2 / 25), tolerance = - 1\<rparr>"
    by (simp add: get_coords_def default_entries_def py_parse_defs)
  have b: "tolerance negative_coords = - 1" by (simp add: negative_coords_def)
  have d: "calculate_color_distance ''1a2b3c'' (pixel_color example_pixel) = Inr 0"
    by (simp add: calculate_color_distance_def parse_rgb_def py_parse_defs pixel_color_def example_pixel_def)
  show ?thesis using a b d by (simp add: example_pixel_step)
qed

text \<open>
  Claim C10, amended. After every cell that goes through, the remembered color is a
  parsed color whose distance to the cell's color is at most the tolerance, or zero
  where the tolerance is negative. The remembered color changes only with a color
  selection: a step that does not count a color change leaves it as it was and only
  places the tile; a step that counts one sets it to the cell's color and selects before
  it places. The controller and the pause loop never touch it.
\<close>

theorem C10_previous_color_only_on_selection:
  assumes "paint_one E c i tot p st = Inr st'" "prev_ok st" "parses (pixel_color p)"
  shows "(\<exists>l d. previous_color st' = Some l
            \<and> calculate_color_distance l (pixel_color p) = Inr d
            \<and> d \<le> max 0 (real_of_int (tolerance c)))
     \<and> (color_changes st' = color_changes st \<longrightarrow>
           previous_color st' = previous_color st \<and> actions st' = actions st @ [pixel_place p])
     \<and> (color_changes st' \<noteq> color_changes st \<longrightarrow>
           color_changes st' = color_changes st + 1 \<and> previous_color st' = Some (pixel_color p)
           \<and> actions st' = actions st @ [SelectColor (pixel_color p), pixel_place p])
     \<and> previous_color (controller sch st) = previous_color st
     \<and> (pause_wait st sch = Some (ab, st2, sch2) \<longrightarrow> previous_color st2 = previous_color st)"
proof -
  note o = paint_one_Inr[OF assms] and ch = paint_one_Inr_changes[OF assms]
  let ?sel = "spec_selects (previous_color st) (pixel_color p) (tolerance c)"
  have 1: "\<exists>l d. previous_color st' = Some l
            \<and> calculate_color_distance l (pixel_color p) = Inr d
            \<and> d \<le> max 0 (real_of_int (tolerance c))"
  proof (cases ?sel)
    case True
    then have "previous_color st' = Some (pixel_color p)" using o(2) by (simp add: spec_step_def)
    moreover have "calculate_color_distance (pixel_color p) (pixel_color p) = Inr 0"
      using distance_is_spec[OF assms(3) assms(3)] by (simp add: spec_distance_self)
    ultimately show ?thesis by auto
  next
    case False
    then obtain l where l: "previous_color st = Some l" "spec_distance l (pixel_color p) \<le> real_of_int (tolerance c)"
      by (cases "previous_color st") (auto simp: spec_selects_def)
    then have "parses l" using assms(2) by (simp add: prev_ok_def)
    from distance_is_spec[OF this assms(3)] l False o(2) show ?thesis
      by (auto simp: spec_step_def)
  qed
  have 2: "color_changes st' = color_changes st \<longrightarrow>
           previous_color st' = previous_color st \<and> actions st' = actions st @ [pixel_place p]"
    using o(1,2) ch by (auto simp: spec_step_def split: if_splits)
  have 3: "color_changes st' \<noteq> color_changes st \<longrightarrow>
           color_changes st' = color_changes st + 1 \<and> previous_color st' = Some (pixel_color p)
           \<and> actions st' = actions st @ [SelectColor (pixel_color p), pixel_place p]"
    using o(1,2) ch by (auto simp: spec_step_def split: if_splits)
  have 4: "previous_color (controller sch st) = previous_color st" by (rule controller_keeps)
  have 5: "pause_wait st sch = Some (ab, st2, sch2) \<longrightarrow> previous_color st2 = previous_color st"
    using pause_wait_keeps by blast
  from 1 2 3 4 5 show ?thesis by blast
qed

theorem C10_previous_color_witness:
  "paint_one quiet_env negative_coords 0 1024 example_pixel init_painter
     = Inr (projr (paint_one quiet_env negative_coords 0 1024 example_pixel init_painter))
   \<and> prev_ok init_painter \<and> parses (pixel_color example_pixel)
   \<and> (\<exists>l d. previous_color (projr (paint_one quiet_env negative_coords 0 1024 example_pixel init_painter)) = Some l
            \<and> calculate_color_distance l (pixel_color example_pixel) = Inr d
            \<and> d \<le> max 0 (real_of_int (tolerance negative_coords)))
   \<and> color_changes (projr (paint_one quiet_env negative_coords 0 1024 example_pixel init_painter))
       = color_changes init_painter + 1"
proof -
  let ?r = "paint_one quiet_env negative_coords 0 1024 example_pixel init_painter"
  have r: "?r = Inr (projr ?r)" by (simp add: example_pixel_step)
  have ok: "prev_ok init_painter" by (simp add: prev_ok_def init_painter_def)
  have pa: "parses (pixel_color example_pixel)"
    by (simp add: parses_def parse_rgb_def py_parse_defs pixel_color_def example_pixel_def)
  have cc: "color_changes (projr ?r) = color_changes init_painter + 1"
    unfolding example_pixel_step by (simp add: init_painter_def)
  from C10_previous_color_only_on_selection[OF r ok pa] r ok pa cc show ?thesis by blast
qed

section \<open>Failures\<close>

lemma collect_Inl: "collect rs = Inl e \<Longrightarrow> Inl e \<in> set rs"
  by (induction rs) (auto split: sum.splits)

lemma pixel_at_Inl: "pixel_at g c tw th y x = Inl e \<Longrightarrow> e = IndexError \<or> e = ValueError"
  by (auto simp: pixel_at_def py_index_def calculate_luminance_def parse_rgb_def case_prod_beta
      split: sum.splits if_splits option.splits)

lemma collect_pixels_Inl: "collect_pixels g c tw th = Inl e \<Longrightarrow> is_Exception e"
proof -
  assume "collect_pixels g c tw th = Inl e"
  then have "Inl e \<in> set (map (\<lambda>i. pixel_at g c tw th (fst i) (snd i)) cell_index)"
    unfolding collect_pixels_alt by (rule collect_Inl)
  then obtain i where "pixel_at g c tw th (fst i) (snd i) = Inl e" by auto
  from pixel_at_Inl[OF this] show ?thesis by auto
qed

lemma paint_pixels_Raise:
  assumes "paint_pixels E c tot i ps st sch = (Raise e, st')" "prev_ok st"
    "list_all (\<lambda>p. parses (pixel_color p)) ps"
  shows "\<exists>k. device E k = Some e"
  using assms
proof (induction ps arbitrary: st sch i)
  case Nil
  then show ?case by simp
next
  case (Cons p ps)
  let ?st1 = "controller sch st"
  have na: "\<not> should_abort ?st1" using Cons.prems(1) by (auto simp: Let_def split: if_splits)
  obtain ab st2 sch2 where pw: "pause_wait ?st1 (tl sch) = Some (ab, st2, sch2)"
    using Cons.prems(1) na by (cases "pause_wait ?st1 (tl sch)") (auto simp: Let_def)
  have nab: "\<not> ab" using Cons.prems(1) na pw by (auto simp: Let_def split: if_splits)
  have ok2: "prev_ok st2" using prev_ok_pause_wait[OF pw] prev_ok_controller Cons.prems(2) by simp
  have pp: "parses (pixel_color p)" using Cons.prems(3) by simp
  show ?case
  proof (cases "paint_one E c i tot p st2")
    case (Inl x)
    obtain e' st3 where x: "x = (e', st3)" by (cases x)
    with Cons.prems(1) na pw nab Inl have "e' = e" by (simp add: Let_def)
    with paint_one_Inl(2)[OF Inl[unfolded x] ok2 pp] show ?thesis by blast
  next
    case (Inr st3)
    with Cons.prems(1) na pw nab have
      rec: "paint_pixels E c tot (Suc i) ps st3 sch2 = (Raise e, st')" by (simp add: Let_def)
    from Cons.IH[OF rec paint_one_Inr(10)[OF Inr ok2 pp]] Cons.prems(3) show ?thesis by simp
  qed
qed

lemma paint_body_Raise:
  assumes "fst (paint_body E g c st sch) = Raise e" "\<forall>k x. device E k = Some x \<longrightarrow> is_Exception x"
  shows "is_Exception e"
proof (cases "collect_pixels g c (fst (tile_size c)) (snd (tile_size c))")
  case (Inl x)
  with paint_body_Inl[OF Inl, of E st sch] assms(1) collect_pixels_Inl[OF Inl] show ?thesis by simp
next
  case (Inr ps)
  obtain ex st4 where
    pp: "paint_pixels E c (length ps) 0 (sort_pixels ps) (loop_start c (length ps) st) sch = (ex, st4)"
    by (cases "paint_pixels E c (length ps) 0 (sort_pixels ps) (loop_start c (length ps) st) sch")
  from paint_body_Inr[OF Inr pp] assms(1) have "ex = Raise e" by (simp split: if_splits)
  have pa: "list_all (\<lambda>p. parses (pixel_color p)) (sort_pixels ps)"
    using collect_pixels_Inr(2)[OF Inr] by (simp add: list_all_iff sort_pixels_facts(1))
  from paint_pixels_Raise[OF pp[unfolded \<open>ex = Raise e\<close>] loop_start_keeps(3) pa] assms(2)
  show ?thesis by blast
qed

lemma idle_finish: "idle (finish_painting st)"
  by (simp add: idle_def finish_painting_def)

lemma painting_loop_first_fails:
  assumes "wf_grid g" "device E 0 = Some e" "\<not> should_abort st" "\<not> is_paused st"
  shows "fst (painting_loop E g c st []) = Raise e"
proof -
  let ?st0 = "st\<lparr>actions := [], clicks := []\<rparr>"
  from wf_grid_collect[OF assms(1)] obtain ps where
    ps: "collect_pixels g c (fst (tile_size c)) (snd (tile_size c)) = Inr ps" by blast
  obtain p qs where e: "sort_pixels ps = p # qs"
    using collect_pixels_nonempty[OF ps] sort_pixels_facts(3)[of ps] by (cases "sort_pixels ps") auto
  obtain ex st4 where
    pp: "paint_pixels E c (length ps) 0 (sort_pixels ps) (loop_start c (length ps) ?st0) [] = (ex, st4)"
    by (cases "paint_pixels E c (length ps) 0 (sort_pixels ps) (loop_start c (length ps) ?st0) []")
  have "fst (paint_pixels E c (length ps) 0 (p # qs) (loop_start c (length ps) ?st0) []) = Raise e"
    using assms by (intro paint_pixels_first_fails) (simp_all add: loop_start_keeps)
  with pp e have "ex = Raise e" by simp
  with paint_body_Inr[OF ps pp] show ?thesis by (simp add: painting_loop_alt)
qed

text \<open>
  Claim C7. Where the input library and \<open>time.sleep\<close> raise instances of
  \<open>Exception\<close>, no exception leaves \<open>painting_loop\<close>: the thread returns or, paused
  for ever, never ends. An exception raised in the body is caught, logged as the last line
  of the status log, and the user interface is back in the state that lets a run start.
  Such runs exist: a device failure at the first action of a run on a well-formed grid
  ends the body with that exception.
\<close>

theorem C7_exceptions_caught_and_logged:
  assumes "painting_loop E g c st sch = (ex, te, st')"
    and "\<forall>k x. device E k = Some x \<longrightarrow> is_Exception x"
  shows "te \<noteq> ThreadEscaped e'
     \<and> (te = ThreadReturned \<longrightarrow> idle st')
     \<and> (ex = Raise e \<longrightarrow> te = ThreadReturned \<and> idle st' \<and> status_log st' \<noteq> []
           \<and> last (status_log st') = LogError e)
     \<and> (te = ThreadStuck \<longrightarrow> ex = Stalled)
     \<and> (wf_grid g \<and> device E 0 = Some e0 \<and> \<not> should_abort st \<and> \<not> is_paused st \<and> sch = []
           \<longrightarrow> ex = Raise e0)"
proof -
  let ?r = "paint_body E g c (st\<lparr>actions := [], clicks := []\<rparr>) sch"
  have ex: "ex = fst ?r" using painting_loop_actions[OF assms(1)] by simp
  have exc: "is_Exception x" if "fst ?r = Raise x" for x
    using paint_body_Raise[OF that assms(2)] .
  have 1: "te \<noteq> ThreadEscaped e'"
    using assms(1) exc by (auto simp: painting_loop_alt Let_def split: exit.splits if_splits)
  have 2: "te = ThreadReturned \<longrightarrow> idle st'"
    using assms(1) by (auto simp: painting_loop_alt Let_def idle_finish split: exit.splits if_splits)
  have 3: "ex = Raise e \<longrightarrow> te = ThreadReturned \<and> idle st' \<and> status_log st' \<noteq> []
           \<and> last (status_log st') = LogError e"
    using assms(1) exc
    by (auto simp: painting_loop_alt Let_def idle_def finish_painting_def log_status_def
        split: exit.splits if_splits)
  have 4: "te = ThreadStuck \<longrightarrow> ex = Stalled"
    using assms(1) by (auto simp: painting_loop_alt Let_def split: exit.splits if_splits)
  have 5: "wf_grid g \<and> device E 0 = Some e0 \<and> \<not> should_abort st \<and> \<not> is_paused st \<and> sch = []
           \<longrightarrow> ex = Raise e0"
    using painting_loop_first_fails[of g E e0 st c] assms(1) by auto
  from 1 2 3 4 5 show ?thesis by blast
qed

theorem C7_exceptions_witness:
  "painting_loop failing_env example_grid example_coords example_state []
     = (Raise AutoItError, ThreadReturned,
        snd (snd (painting_loop failing_env example_grid example_coords example_state [])))
   \<and> is_Exception AutoItError
   \<and> idle (snd (snd (painting_loop failing_env example_grid example_coords example_state [])))
   \<and> last (status_log (snd (snd (painting_loop failing_env example_grid example_coords example_state []))))
       = LogError AutoItError"
proof -
  let ?r = "painting_loop failing_env example_grid example_coords example_state []"
  have r: "?r = (fst ?r, fst (snd ?r), snd (snd ?r))" by simp
  have d: "\<forall>k x. device failing_env k = Some x \<longrightarrow> is_Exception x" by (simp add: failing_env_def)
  have d0: "device failing_env 0 = Some AutoItError" by (simp add: failing_env_def)
  note t = C7_exceptions_caught_and_logged[OF r d, where ?e0.0 = AutoItError and e = AutoItError]
  have a: "fst ?r = Raise AutoItError" using t example_facts d0 by blast
  with t have b: "fst (snd ?r) = ThreadReturned" "idle (snd (snd ?r))"
    "last (status_log (snd (snd ?r))) = LogError AutoItError" by blast+
  from a b(1) have "?r = (Raise AutoItError, ThreadReturned, snd (snd ?r))" by (simp add: prod_eq_iff)
  with b show ?thesis by simp
qed

section \<open>Aborts\<close>

lemma placed_cells_append: "placed_cells (xs @ ys) = placed_cells xs @ placed_cells ys"
  by (simp add: placed_cells_def)

lemma placed_cells_step: "length (placed_cells (fst (spec_step tol l p))) = 1"
  by (cases p) (simp add: spec_step_def placed_cells_Cons pixel_place_def)

lemma controller_empty_batch: "controller ([] # sch) st = st"
  by (simp add: controller_def)

text \<open>
  An abort pressed after \<open>n\<close> undisturbed cells, seen at the top of the next iteration:
  the loop returns with exactly \<open>n\<close> more cells placed and the abort logged.
\<close>

lemma paint_pixels_abort_after:
  assumes "quiet E"
  shows "abort_btn st = NORMAL \<Longrightarrow> \<not> should_abort st \<Longrightarrow> \<not> is_paused st \<Longrightarrow> prev_ok st \<Longrightarrow>
     list_all (\<lambda>p. parses (pixel_color p)) ps \<Longrightarrow> n < length ps \<Longrightarrow>
     \<exists>s. paint_pixels E c tot i ps st (replicate (2 * n) [] @ [PressAbort] # sch) = (AbortReturn, s)
        \<and> length (placed_cells (actions s)) = length (placed_cells (actions st)) + n
        \<and> status_log s \<noteq> [] \<and> last (status_log s) = LogAborted"
proof (induction n arbitrary: ps st i)
  case 0
  then obtain p qs where e: "ps = p # qs" by (cases ps) auto
  show ?case using paint_pixels_abort_top[OF 0(1), of E c tot i p qs sch]
    by (simp add: e finish_painting_def log_status_def abort_painting_def)
next
  case (Suc n)
  then obtain p qs where e: "ps = p # qs" by (cases ps) auto
  let ?rest = "replicate (2 * n) [] @ [PressAbort] # sch"
  have sch: "replicate (2 * Suc n) [] @ [PressAbort] # sch = [] # [] # ?rest" by simp
  have pp: "parses (pixel_color p)" using Suc.prems(5) e by simp
  have pw: "pause_wait st ([] # ?rest) = Some (False, st, ?rest)"
    using pause_wait_not_paused[of "[] # ?rest" st] Suc.prems(3) by (simp add: controller_empty_batch)
  show ?case
  proof (cases "paint_one E c i tot p st")
    case (Inl x)
    obtain e' st3 where "x = (e', st3)" by (cases x)
    from paint_one_Inl(2)[OF Inl[unfolded this] Suc.prems(4) pp] assms show ?thesis
      by (simp add: quiet_def)
  next
    case (Inr st3)
    note o = paint_one_Inr[OF Inr Suc.prems(4) pp]
    have "\<exists>s. paint_pixels E c tot (Suc i) qs st3 ?rest = (AbortReturn, s)
        \<and> length (placed_cells (actions s)) = length (placed_cells (actions st3)) + n
        \<and> status_log s \<noteq> [] \<and> last (status_log s) = LogAborted"
      using Suc.prems o e by (intro Suc.IH) simp_all
    then obtain s where s: "paint_pixels E c tot (Suc i) qs st3 ?rest = (AbortReturn, s)"
        "length (placed_cells (actions s)) = length (placed_cells (actions st3)) + n"
        "status_log s \<noteq> []" "last (status_log s) = LogAborted" by blast
    have "paint_pixels E c tot i ps st (replicate (2 * Suc n) [] @ [PressAbort] # sch) = (AbortReturn, s)"
      unfolding sch e using Suc.prems(2) pw Inr s(1)
      by (simp add: controller_empty_batch Let_def)
    moreover have "length (placed_cells (actions s)) = length (placed_cells (actions st)) + Suc n"
      using s(2) o(1) by (simp add: placed_cells_append placed_cells_step)
    ultimately show ?thesis using s(3,4) by blast
  qed
qed

lemma status_log_loop_start:
  "status_log (loop_start c n st) = status_log st @
     [LogStartingIn 3, LogStartingIn 2, LogStartingIn 1, LogStarting,
      LogTileSize (fst (tile_size c)) (snd (tile_size c)), LogSorted n]"
  by (simp add: loop_start_def log_status_def)

text \<open>
  Claim C4, on the code. On a well-formed grid, with devices that do not fail: an abort
  pressed after \<open>n\<close> undisturbed cells and seen at the top of the next iteration ends the
  run with exactly \<open>n\<close> cells placed, the user interface reset and the abort logged as
  the last line. An abort pressed while the run is paused ends it too, with the user
  interface reset, but the pause loop returns without logging it: the status log holds no
  abort line.
\<close>

theorem C4_abort_paused_not_reported:
  assumes "wf_grid g" "quiet E" "abort_btn st = NORMAL" "pause_btn st = NORMAL"
    "\<not> should_abort st" "\<not> is_paused st" "LogAborted \<notin> set (status_log st)" "n < 1024"
  shows "(\<exists>s. painting_loop E g c st (replicate (2 * n) [] @ [PressAbort] # sch)
              = (AbortReturn, ThreadReturned, s)
            \<and> idle s \<and> length (placed_cells (actions s)) = n \<and> last (status_log s) = LogAborted)
     \<and> (\<exists>s. painting_loop E g c st ([PressPause] # [] # [PressAbort] # sch)
              = (AbortReturnPaused, ThreadReturned, s)
            \<and> idle s \<and> actions s = [] \<and> LogAborted \<notin> set (status_log s))"
proof -
  let ?st0 = "st\<lparr>actions := [], clicks := []\<rparr>"
  from wf_grid_collect[OF assms(1)] obtain ps where
    ps: "collect_pixels g c (fst (tile_size c)) (snd (tile_size c)) = Inr ps" by blast
  let ?ls = "loop_start c (length ps) ?st0"
  have len: "length (sort_pixels ps) = 1024"
    using collect_pixels_nonempty[OF ps] sort_pixels_facts(3)[of ps] by simp
  then obtain p qs where e: "sort_pixels ps = p # qs" by (cases "sort_pixels ps") auto
  have pa: "list_all (\<lambda>p. parses (pixel_color p)) (sort_pixels ps)"
    using collect_pixels_Inr(2)[OF ps] by (simp add: list_all_iff sort_pixels_facts(1))
  have fl: "abort_btn ?ls = NORMAL" "pause_btn ?ls = NORMAL" "\<not> should_abort ?ls" "\<not> is_paused ?ls"
    "prev_ok ?ls" "actions ?ls = []"
    using assms by (simp_all add: loop_start_keeps)
  have 1: "\<exists>s. painting_loop E g c st (replicate (2 * n) [] @ [PressAbort] # sch)
              = (AbortReturn, ThreadReturned, s)
            \<and> idle s \<and> length (placed_cells (actions s)) = n \<and> last (status_log s) = LogAborted"
  proof -
    from paint_pixels_abort_after[OF assms(2) fl(1,3,4,5) pa, of n c "length ps" 0 sch] assms(8) len
    obtain s where s: "paint_pixels E c (length ps) 0 (sort_pixels ps) ?ls
          (replicate (2 * n) [] @ [PressAbort] # sch) = (AbortReturn, s)"
      "length (placed_cells (actions s)) = n" "status_log s \<noteq> []" "last (status_log s) = LogAborted"
      by (auto simp: fl(6) placed_cells_Cons)
    from paint_body_Inr[OF ps s(1)] s(2,3,4) show ?thesis
      by (simp add: painting_loop_alt idle_def finish_painting_def)
  qed
  have 2: "\<exists>s. painting_loop E g c st ([PressPause] # [] # [PressAbort] # sch)
              = (AbortReturnPaused, ThreadReturned, s)
            \<and> idle s \<and> actions s = [] \<and> LogAborted \<notin> set (status_log s)"
  proof -
    have "paint_pixels E c (length ps) 0 (sort_pixels ps) ?ls ([PressPause] # [] # [PressAbort] # sch)
        = (AbortReturnPaused, finish_painting (abort_painting (toggle_pause ?ls)))"
      unfolding e by (rule paint_pixels_abort_paused[OF fl(1-4)])
    from paint_body_Inr[OF ps this] assms(7) fl(4,6) show ?thesis
      by (simp add: painting_loop_alt idle_def finish_painting_def abort_painting_def
          toggle_pause_def log_status_def Let_def status_log_loop_start)
  qed
  from 1 2 show ?thesis by blast
qed

theorem C4_abort_witness:
  "wf_grid example_grid \<and> quiet quiet_env \<and> abort_btn example_state = NORMAL
   \<and> pause_btn example_state = NORMAL \<and> \<not> should_abort example_state
   \<and> \<not> is_paused example_state \<and> LogAborted \<notin> set (status_log example_state)
   \<and> (10 :: nat) < 1024
   \<and> (\<exists>s. painting_loop quiet_env example_grid example_coords example_state
              (replicate (2 * 10) [] @ [PressAbort] # [])
              = (AbortReturn, ThreadReturned, s)
            \<and> idle s \<and> length (placed_cells (actions s)) = 10 \<and> last (status_log s) = LogAborted)
   \<and> (\<exists>s. painting_loop quiet_env example_grid example_coords example_state
              ([PressPause] # [] # [PressAbort] # [])
              = (AbortReturnPaused, ThreadReturned, s)
            \<and> idle s \<and> actions s = [] \<and> LogAborted \<notin> set (status_log s))"
proof -
  have g: "get_coords default_entries \<noteq> None"
    by (simp add: get_coords_def default_entries_def py_parse_defs)
  have l: "LogAborted \<notin> set (status_log example_state)"
    using g by (auto simp: example_state_def start_painting_def init_painter_def)
  have n: "(10 :: nat) < 1024" by simp
  from C4_abort_paused_not_reported[OF example_facts(1,2,5,6,3,4) l n,
      where c = example_coords and sch = "[]"]
    example_facts l n show ?thesis by blast
qed

end
